theory Spec2Isabelle
  imports Complex_Main "HOL-Library.Word"
begin

unbundle bit_operations_syntax

section \<open>Numbers, strings and constants\<close>

text \<open>
  JavaScript numbers are modelled as \<^typ>\<open>real\<close>: every quantity of the layout engine is a
  finite number and no property below depends on rounding. \<open>Math.sqrt\<close>, \<open>Math.cos\<close>,
  \<open>Math.sin\<close> and \<open>Math.PI\<close> are \<^const>\<open>sqrt\<close>, \<^const>\<open>cos\<close>, \<^const>\<open>sin\<close> and \<^const>\<open>pi\<close>.
  The 32-bit integer operations of the seeded generator are modelled on \<^typ>\<open>32 word\<close>.
  \<open>Math.random()\<close> is an explicit source \<open>rnd :: nat \<Rightarrow> real\<close> read at a running index.
\<close>

text \<open>A JavaScript string is truthy iff it is not empty.\<close>

definition truthy :: "string \<Rightarrow> bool" where
  "truthy s = (s \<noteq> [])"

text \<open>\<open>config/layout.ts\<close>: the constants the simulator and the node graph read.\<close>

definition TASK_ORBIT_RADIUS_MIN :: real where "TASK_ORBIT_RADIUS_MIN = 120"
definition TASK_ORBIT_RADIUS_MAX :: real where "TASK_ORBIT_RADIUS_MAX = 160"
definition MILESTONE_RADIUS :: real where "MILESTONE_RADIUS = 80"
definition TASK_RADIUS_BASE :: real where "TASK_RADIUS_BASE = 45"
definition TASK_RADIUS_PER_SUBTASK :: real where "TASK_RADIUS_PER_SUBTASK = 5"
definition SUBTASK_RADIUS :: real where "SUBTASK_RADIUS = 20"
definition REPULSION_STRENGTH :: real where "REPULSION_STRENGTH = 150"
definition DAMPING :: real where "DAMPING = 92 / 100"
definition DRAG_PUSH_RADIUS :: real where "DRAG_PUSH_RADIUS = 50"
definition DRAG_PUSH_STRENGTH :: real where "DRAG_PUSH_STRENGTH = 4"
definition DRAG_VELOCITY_TRANSFER :: real where "DRAG_VELOCITY_TRANSFER = 3 / 10"
definition MAX_VELOCITY :: real where "MAX_VELOCITY = 5"
definition PARENT_ATTRACTION_STRENGTH :: real where "PARENT_ATTRACTION_STRENGTH = 1 / 100"
definition ORBIT_STIFFNESS :: real where "ORBIT_STIFFNESS = 5 / 1000"
definition SUBTASK_ORBIT_RADIUS :: real where "SUBTASK_ORBIT_RADIUS = 60"

section \<open>The node graph data (\<open>types/index.ts\<close>)\<close>

datatype EntityType = Milestone | Task | Subtask

text \<open>
  \<open>CloudNode\<close>. The \<open>entity\<close> field is a back reference to the entity record; the simulator
  never reads it, so it is left out. \<open>parentId?: string\<close> is an optional field.
\<close>

record CloudNode =
  node_id :: string
  node_type :: EntityType
  node_x :: real
  node_y :: real
  node_vx :: real
  node_vy :: real
  node_radius :: real
  node_parentId :: "string option"

text \<open>The module-level \<open>dragState\<close>; \<open>nodeId: string | null\<close>.\<close>

record DragState =
  drag_nodeId :: "string option"
  drag_x :: real
  drag_y :: real
  drag_prevX :: real
  drag_prevY :: real
  drag_vx :: real
  drag_vy :: real

section \<open>The force simulator (\<open>applyForces\<close>)\<close>

text \<open>
  \<open>nodeMap\<close> is filled by \<open>nodes.forEach(node => nodeMap.set(node.id, node))\<close>, so a later
  node with the same id replaces an earlier one. The map holds references: a lookup yields the
  node as it is now, which is the last node of the current list with that id (ids never change
  during a step).
\<close>

definition nodeMap_get :: "CloudNode list \<Rightarrow> string \<Rightarrow> CloudNode option" where
  "nodeMap_get nodes k = map_of (map (\<lambda>n. (node_id n, n)) (rev nodes)) k"

definition isDraggedNode :: "DragState \<Rightarrow> CloudNode \<Rightarrow> bool" where
  "isDraggedNode ds n = (drag_nodeId ds = Some (node_id n))"

text \<open>\<open>focusedSubtreeIds?.has(nodeA.id)\<close>\<close>

definition inSubtree :: "string set option \<Rightarrow> CloudNode \<Rightarrow> bool" where
  "inSubtree ids n = (case ids of None \<Rightarrow> False | Some S \<Rightarrow> node_id n \<in> S)"

text \<open>\<open>focusedNodeId ? nodeMap.get(focusedNodeId) : null\<close>\<close>

definition focusedNodeOf :: "CloudNode list \<Rightarrow> string option \<Rightarrow> CloudNode option" where
  "focusedNodeOf nodes focusedNodeId =
     (case focusedNodeId of
        None \<Rightarrow> None
      | Some fid \<Rightarrow> if truthy fid then nodeMap_get nodes fid else None)"

text \<open>\<open>focusedNode?.type === 'subtask' && focusedNode.parentId ? focusedNode.parentId : null\<close>\<close>

definition parentOfFocusedSubtaskOf :: "CloudNode option \<Rightarrow> string option" where
  "parentOfFocusedSubtaskOf focusedNode =
     (case focusedNode of
        None \<Rightarrow> None
      | Some fn \<Rightarrow>
          (case node_parentId fn of
             None \<Rightarrow> None
           | Some p \<Rightarrow> if node_type fn = Subtask \<and> truthy p then Some p else None))"

definition isFocusedNode :: "string option \<Rightarrow> CloudNode \<Rightarrow> bool" where
  "isFocusedNode focusedNodeId n = (focusedNodeId = Some (node_id n))"

definition isChildOfFocused :: "CloudNode option \<Rightarrow> CloudNode \<Rightarrow> bool" where
  "isChildOfFocused focusedNode n =
     (case focusedNode of None \<Rightarrow> False | Some fn \<Rightarrow> node_parentId n = Some (node_id fn))"

definition isParentOfFocusedSubtask :: "string option \<Rightarrow> CloudNode \<Rightarrow> bool" where
  "isParentOfFocusedSubtask p n = (case p of None \<Rightarrow> False | Some q \<Rightarrow> node_id n = q)"

definition speedOf :: "CloudNode \<Rightarrow> real" where
  "speedOf n = sqrt (node_vx n * node_vx n + node_vy n * node_vy n)"

text \<open>Parent-child attraction (the block guarded by \<open>nodeA.parentId && !inFocusMode\<close>).\<close>

definition parentAttraction :: "CloudNode list \<Rightarrow> bool \<Rightarrow> CloudNode \<Rightarrow> CloudNode" where
  "parentAttraction nodes inFocusMode nodeA =
     (case node_parentId nodeA of
        None \<Rightarrow> nodeA
      | Some pid \<Rightarrow>
          if truthy pid \<and> \<not> inFocusMode then
            (case nodeMap_get nodes pid of
               None \<Rightarrow> nodeA
             | Some parent \<Rightarrow>
                 (let dx = node_x parent - node_x nodeA;
                      dy = node_y parent - node_y nodeA;
                      dist = sqrt (dx * dx + dy * dy)
                  in if dist > 0 then
                       (let idealOrbit = (if node_type nodeA = Subtask then SUBTASK_ORBIT_RADIUS
                                          else (TASK_ORBIT_RADIUS_MIN + TASK_ORBIT_RADIUS_MAX) / 2);
                            orbitDiff = dist - idealOrbit;
                            nx = dx / dist;
                            ny = dy / dist;
                            typeMultiplier = (if node_type nodeA = Subtask then 3 / 10 else 1);
                            attractionForce = orbitDiff * ORBIT_STIFFNESS * typeMultiplier;
                            gravityForce = PARENT_ATTRACTION_STRENGTH * typeMultiplier
                        in nodeA\<lparr>node_vx := node_vx nodeA + nx * (attractionForce + gravityForce),
                                 node_vy := node_vy nodeA + ny * (attractionForce + gravityForce)\<rparr>)
                     else nodeA))
          else nodeA)"

text \<open>
  One pass of the inner loop body for the pair \<open>(i, j)\<close>: the drag-proximity skip, the
  bounding-box early exit and the repulsion itself. \<open>isDragged\<close> is the flag of \<open>nodeA\<close>
  computed at the top of the outer iteration.
\<close>

definition nearDrag :: "DragState \<Rightarrow> CloudNode \<Rightarrow> bool" where
  "nearDrag ds n = (\<bar>node_x n - drag_x ds\<bar> < DRAG_PUSH_RADIUS * (3 / 2) \<and>
                    \<bar>node_y n - drag_y ds\<bar> < DRAG_PUSH_RADIUS * (3 / 2))"

definition repulsePair :: "DragState \<Rightarrow> bool \<Rightarrow> CloudNode \<Rightarrow> CloudNode \<Rightarrow> CloudNode \<times> CloudNode" where
  "repulsePair ds isDragged nodeA nodeB =
     (if drag_nodeId ds \<noteq> None \<and> \<not> nearDrag ds nodeA \<and> \<not> nearDrag ds nodeB then (nodeA, nodeB)
      else
        (let dx = node_x nodeB - node_x nodeA;
             dy = node_y nodeB - node_y nodeA;
             maxDist = node_radius nodeA + node_radius nodeB + 150
         in if \<bar>dx\<bar> > maxDist \<or> \<bar>dy\<bar> > maxDist then (nodeA, nodeB)
            else
              (let distSq = dx * dx + dy * dy;
                   minDist = node_radius nodeA + node_radius nodeB + 20;
                   minDistSq = minDist * minDist
               in if distSq < minDistSq \<and> distSq > 0 then
                    (let dist = sqrt distSq;
                         otherIsDragged = isDraggedNode ds nodeB;
                         dragMultiplier = (if isDragged \<or> otherIsDragged then 3 else 1);
                         force = (minDist - dist) / dist * REPULSION_STRENGTH * (1 / 100) * dragMultiplier;
                         fx = dx * force;
                         fy = dy * force;
                         nodeA' = (if \<not> isDragged
                                   then nodeA\<lparr>node_vx := node_vx nodeA - fx, node_vy := node_vy nodeA - fy\<rparr>
                                   else nodeA);
                         nodeB' = (if \<not> otherIsDragged
                                   then nodeB\<lparr>node_vx := node_vx nodeB + fx, node_vy := node_vy nodeB + fy\<rparr>
                                   else nodeB)
                     in (nodeA', nodeB'))
                  else (nodeA, nodeB))))"

text \<open>\<open>for (let j = i + 1; j < nodes.length; j++)\<close>; \<open>n\<close> is \<open>nodes.length\<close>.\<close>

function repulsionLoop :: "DragState \<Rightarrow> bool \<Rightarrow> nat \<Rightarrow> nat \<Rightarrow> nat \<Rightarrow> CloudNode list \<Rightarrow> CloudNode list" where
  "repulsionLoop ds isDragged n i j nodes =
     (if j < n then
        (let (nodeA', nodeB') = repulsePair ds isDragged (nodes ! i) (nodes ! j)
         in repulsionLoop ds isDragged n i (j + 1) (nodes[i := nodeA', j := nodeB']))
      else nodes)"
  by pat_completeness auto
termination
  by (relation "measure (\<lambda>(ds, isDragged, n, i, j, nodes). n - j)") auto

text \<open>Push and wake force from the dragged cloud (guarded by \<open>if (dragState.nodeId)\<close>).\<close>

definition dragPush :: "DragState \<Rightarrow> CloudNode \<Rightarrow> CloudNode" where
  "dragPush ds nodeA =
     (case drag_nodeId ds of
        None \<Rightarrow> nodeA
      | Some did \<Rightarrow>
          if truthy did then
            (let dx = node_x nodeA - drag_x ds;
                 dy = node_y nodeA - drag_y ds;
                 dist = sqrt (dx * dx + dy * dy)
             in if dist < DRAG_PUSH_RADIUS \<and> dist > 0 then
                  (let pushStrength = (1 - dist / DRAG_PUSH_RADIUS) * DRAG_PUSH_STRENGTH;
                       normalizedDx = dx / dist;
                       normalizedDy = dy / dist;
                       vx1 = node_vx nodeA + normalizedDx * pushStrength;
                       vy1 = node_vy nodeA + normalizedDy * pushStrength
                   in nodeA\<lparr>node_vx := vx1 + drag_vx ds * DRAG_VELOCITY_TRANSFER * (1 - dist / DRAG_PUSH_RADIUS),
                            node_vy := vy1 + drag_vy ds * DRAG_VELOCITY_TRANSFER * (1 - dist / DRAG_PUSH_RADIUS)\<rparr>)
                else nodeA)
          else nodeA)"

text \<open>Jitter: two draws of \<open>Math.random()\<close> when the node already moves; returns the new read index.\<close>

definition jitterStep :: "(nat \<Rightarrow> real) \<Rightarrow> nat \<Rightarrow> CloudNode \<Rightarrow> CloudNode \<times> nat" where
  "jitterStep rnd k nodeA =
     (let currentSpeed = speedOf nodeA
      in if currentSpeed > 1 / 10 then
           (let jitter = 5 / 100;
                vx1 = node_vx nodeA + (rnd k - 1 / 2) * jitter;
                vy1 = node_vy nodeA + (rnd (k + 1) - 1 / 2) * jitter
            in (nodeA\<lparr>node_vx := vx1, node_vy := vy1\<rparr>, k + 2))
         else (nodeA, k))"

text \<open>Velocity cap; the speed is measured before the cap and is what \<open>maxVelocity\<close> records.\<close>

definition capVelocity :: "CloudNode \<Rightarrow> CloudNode" where
  "capVelocity nodeA =
     (let speed = speedOf nodeA
      in if speed > MAX_VELOCITY
         then nodeA\<lparr>node_vx := (node_vx nodeA / speed) * MAX_VELOCITY,
                    node_vy := (node_vy nodeA / speed) * MAX_VELOCITY\<rparr>
         else nodeA)"

definition integrate :: "CloudNode \<Rightarrow> CloudNode" where
  "integrate nodeA =
     nodeA\<lparr>node_x := node_x nodeA + node_vx nodeA,
            node_y := node_y nodeA + node_vy nodeA,
            node_vx := node_vx nodeA * DAMPING,
            node_vy := node_vy nodeA * DAMPING\<rparr>"

text \<open>The simulator's loop state: the node array, \<open>maxVelocity\<close>, and the random read index.\<close>

type_synonym simState = "CloudNode list \<times> real \<times> nat"

text \<open>
  The part of the outer loop body after all the \<open>continue\<close> guards: attraction, repulsion,
  drag push, jitter, cap, \<open>maxVelocity\<close>, integration and damping of node \<open>i\<close>.
\<close>

definition forceStep :: "DragState \<Rightarrow> (nat \<Rightarrow> real) \<Rightarrow> bool \<Rightarrow> bool \<Rightarrow> nat \<Rightarrow> simState \<Rightarrow> simState" where
  "forceStep ds rnd inFocusMode isDragged i st =
     (case st of (nodes, maxVelocity, k) \<Rightarrow>
        (let nodes1 = nodes[i := parentAttraction nodes inFocusMode (nodes ! i)];
             nodes2 = repulsionLoop ds isDragged (length nodes) i (i + 1) nodes1;
             a3 = dragPush ds (nodes2 ! i);
             (a4, k') = jitterStep rnd k a3;
             speed = speedOf a4;
             a5 = capVelocity a4;
             maxVelocity' = max maxVelocity speed
         in (nodes2[i := integrate a5], maxVelocity', k')))"

text \<open>One iteration of \<open>for (let i = 0; i < nodes.length; i++)\<close>, with its \<open>continue\<close> guards in order.\<close>

definition stepNode ::
  "DragState \<Rightarrow> (nat \<Rightarrow> real) \<Rightarrow> string option \<Rightarrow> bool \<Rightarrow> string set option \<Rightarrow>
   CloudNode option \<Rightarrow> string option \<Rightarrow> nat \<Rightarrow> simState \<Rightarrow> simState" where
  "stepNode ds rnd focusedNodeId inFocusMode focusedSubtreeIds focusedNode parentOfFocusedSubtask i st =
     (case st of (nodes, maxVelocity, k) \<Rightarrow>
        (let nodeA = nodes ! i;
             isDragged = isDraggedNode ds nodeA
         in if isDragged then
              (nodes[i := nodeA\<lparr>node_x := drag_x ds, node_y := drag_y ds, node_vx := 0, node_vy := 0\<rparr>],
               maxVelocity, k)
            else if inSubtree focusedSubtreeIds nodeA then
              (nodes[i := nodeA\<lparr>node_vx := 0, node_vy := 0\<rparr>], maxVelocity, k)
            else
              (let isFocused = isFocusedNode focusedNodeId nodeA;
                   isChild = isChildOfFocused focusedNode nodeA;
                   isParent = isParentOfFocusedSubtask parentOfFocusedSubtask nodeA
               in if inFocusMode then
                    (if isFocused \<or> isParent then (nodes, maxVelocity, k)
                     else if isChild then (nodes, maxVelocity, k)
                     else (nodes[i := nodeA\<lparr>node_vx := node_vx nodeA * (85 / 100),
                                            node_vy := node_vy nodeA * (85 / 100)\<rparr>],
                           maxVelocity, k))
                  else if isFocused \<or> isParent then
                    (nodes[i := nodeA\<lparr>node_vx := 0, node_vy := 0\<rparr>], maxVelocity, k)
                  else if node_type nodeA = Milestone then
                    (nodes[i := nodeA\<lparr>node_vx := 0, node_vy := 0\<rparr>], maxVelocity, k)
                  else forceStep ds rnd inFocusMode isDragged i (nodes, maxVelocity, k))))"

function forLoop ::
  "DragState \<Rightarrow> (nat \<Rightarrow> real) \<Rightarrow> string option \<Rightarrow> bool \<Rightarrow> string set option \<Rightarrow>
   CloudNode option \<Rightarrow> string option \<Rightarrow> nat \<Rightarrow> nat \<Rightarrow> simState \<Rightarrow> simState" where
  "forLoop ds rnd fid fm ids fnode pfs n i st =
     (if i < n then forLoop ds rnd fid fm ids fnode pfs n (i + 1) (stepNode ds rnd fid fm ids fnode pfs i st)
      else st)"
  by pat_completeness auto
termination
  by (relation "measure (\<lambda>(ds, rnd, fid, fm, ids, fnode, pfs, n, i, st). n - i)") auto

text \<open>
  \<open>applyForces(nodes, focusedNodeId, inFocusMode, focusedSubtreeIds)\<close>: the nodes are mutated in
  place, so the model returns the array after the call together with the returned \<open>maxVelocity\<close>.
  An absent \<open>focusedNodeId\<close> or \<open>focusedSubtreeIds\<close> is \<open>None\<close>; an absent \<open>inFocusMode\<close> is \<open>False\<close>.
\<close>

definition applyForces ::
  "DragState \<Rightarrow> (nat \<Rightarrow> real) \<Rightarrow> CloudNode list \<Rightarrow> string option \<Rightarrow> bool \<Rightarrow> string set option \<Rightarrow>
   CloudNode list \<times> real" where
  "applyForces ds rnd nodes focusedNodeId inFocusMode focusedSubtreeIds =
     (let focusedNode = focusedNodeOf nodes focusedNodeId;
          parentOfFocusedSubtask = parentOfFocusedSubtaskOf focusedNode;
          (nodes', maxVelocity, k) =
             forLoop ds rnd focusedNodeId inFocusMode focusedSubtreeIds focusedNode
               parentOfFocusedSubtask (length nodes) 0 (nodes, 0, 0)
      in (nodes', maxVelocity))"

section \<open>Run-time faults of the simulator\<close>

text \<open>
  JavaScript arithmetic is total: a division by zero does not throw, it yields \<open>Infinity\<close> or
  \<open>NaN\<close>, which then spreads through every velocity and position it touches. The only
  operation of \<open>applyForces\<close> that can throw is a property read on \<open>undefined\<close> (a
  \<open>TypeError\<close>), as \<open>nodes[i].id\<close> past the end of the array would be. The definitions of this
  section are the code of \<open>applyForces\<close> once more, with both faults made explicit: a
  computation returns \<open>Inl\<close> of the fault or \<open>Inr\<close> of its value, \<open>bindE\<close> runs the rest of the
  code on a value and passes a fault on, \<open>elemAt\<close> is an array read whose result is
  dereferenced, and \<open>divE\<close> is the operator \<open>/\<close>. A lookup in \<open>nodeMap\<close> yields an option, which
  the code tests before use, as above.
\<close>

datatype fault = TypeError | DivisionByZero

definition bindE :: "fault + 'a \<Rightarrow> ('a \<Rightarrow> fault + 'b) \<Rightarrow> fault + 'b" where
  "bindE m f = (case m of Inl e \<Rightarrow> Inl e | Inr v \<Rightarrow> f v)"

definition elemAt :: "'a list \<Rightarrow> nat \<Rightarrow> fault + 'a" where
  "elemAt xs i = (if i < length xs then Inr (xs ! i) else Inl TypeError)"

definition divE :: "real \<Rightarrow> real \<Rightarrow> fault + real" where
  "divE a b = (if b = 0 then Inl DivisionByZero else Inr (a / b))"

text \<open>Parent-child attraction, lines 329 to 363.\<close>

definition parentAttractionE :: "CloudNode list \<Rightarrow> bool \<Rightarrow> CloudNode \<Rightarrow> fault + CloudNode" where
  "parentAttractionE nodes inFocusMode nodeA =
     (case node_parentId nodeA of
        None \<Rightarrow> Inr nodeA
      | Some pid \<Rightarrow>
          if truthy pid \<and> \<not> inFocusMode then
            (case nodeMap_get nodes pid of
               None \<Rightarrow> Inr nodeA
             | Some parent \<Rightarrow>
                 (let dx = node_x parent - node_x nodeA;
                      dy = node_y parent - node_y nodeA;
                      dist = sqrt (dx * dx + dy * dy)
                  in if dist > 0 then
                       bindE (if node_type nodeA = Subtask then Inr SUBTASK_ORBIT_RADIUS
                              else divE (TASK_ORBIT_RADIUS_MIN + TASK_ORBIT_RADIUS_MAX) 2) (\<lambda>idealOrbit.
                       bindE (divE dx dist) (\<lambda>nx.
                       bindE (divE dy dist) (\<lambda>ny.
                         (let orbitDiff = dist - idealOrbit;
                              typeMultiplier = (if node_type nodeA = Subtask then 3 / 10 else 1);
                              attractionForce = orbitDiff * ORBIT_STIFFNESS * typeMultiplier;
                              gravityForce = PARENT_ATTRACTION_STRENGTH * typeMultiplier
                          in Inr (nodeA\<lparr>node_vx := node_vx nodeA + nx * (attractionForce + gravityForce),
                                        node_vy := node_vy nodeA + ny * (attractionForce + gravityForce)\<rparr>)))))
                     else Inr nodeA))
          else Inr nodeA)"

text \<open>One pass of the inner loop body, lines 370 to 413.\<close>

definition repulsePairE ::
  "DragState \<Rightarrow> bool \<Rightarrow> CloudNode \<Rightarrow> CloudNode \<Rightarrow> fault + (CloudNode \<times> CloudNode)" where
  "repulsePairE ds isDragged nodeA nodeB =
     (if drag_nodeId ds \<noteq> None \<and> \<not> nearDrag ds nodeA \<and> \<not> nearDrag ds nodeB then Inr (nodeA, nodeB)
      else
        (let dx = node_x nodeB - node_x nodeA;
             dy = node_y nodeB - node_y nodeA;
             maxDist = node_radius nodeA + node_radius nodeB + 150
         in if \<bar>dx\<bar> > maxDist \<or> \<bar>dy\<bar> > maxDist then Inr (nodeA, nodeB)
            else
              (let distSq = dx * dx + dy * dy;
                   minDist = node_radius nodeA + node_radius nodeB + 20;
                   minDistSq = minDist * minDist
               in if distSq < minDistSq \<and> distSq > 0 then
                    (let dist = sqrt distSq;
                         otherIsDragged = isDraggedNode ds nodeB;
                         dragMultiplier = (if isDragged \<or> otherIsDragged then 3 else 1)
                     in bindE (divE (minDist - dist) dist) (\<lambda>q.
                          (let force = q * REPULSION_STRENGTH * (1 / 100) * dragMultiplier;
                               fx = dx * force;
                               fy = dy * force;
                               nodeA' = (if \<not> isDragged
                                         then nodeA\<lparr>node_vx := node_vx nodeA - fx, node_vy := node_vy nodeA - fy\<rparr>
                                         else nodeA);
                               nodeB' = (if \<not> otherIsDragged
                                         then nodeB\<lparr>node_vx := node_vx nodeB + fx, node_vy := node_vy nodeB + fy\<rparr>
                                         else nodeB)
                           in Inr (nodeA', nodeB'))))
                  else Inr (nodeA, nodeB))))"

text \<open>
  The inner loop. \<open>nodeA\<close> is the reference read at the top of the outer iteration; the model
  reads it back from the array at each pass, as it reads \<open>nodes[j]\<close>.
\<close>

function repulsionLoopE ::
  "DragState \<Rightarrow> bool \<Rightarrow> nat \<Rightarrow> nat \<Rightarrow> nat \<Rightarrow> CloudNode list \<Rightarrow> fault + CloudNode list" where
  "repulsionLoopE ds isDragged n i j nodes =
     (if j < n then
        bindE (elemAt nodes i) (\<lambda>nodeA.
        bindE (elemAt nodes j) (\<lambda>nodeB.
        bindE (repulsePairE ds isDragged nodeA nodeB) (\<lambda>(nodeA', nodeB').
          repulsionLoopE ds isDragged n i (j + 1) (nodes[i := nodeA', j := nodeB']))))
      else Inr nodes)"
  by pat_completeness auto
termination
  by (relation "measure (\<lambda>(ds, isDragged, n, i, j, nodes). n - j)") auto

text \<open>Push and wake force from the dragged cloud, lines 417 to 436.\<close>

definition dragPushE :: "DragState \<Rightarrow> CloudNode \<Rightarrow> fault + CloudNode" where
  "dragPushE ds nodeA =
     (case drag_nodeId ds of
        None \<Rightarrow> Inr nodeA
      | Some did \<Rightarrow>
          if truthy did then
            (let dx = node_x nodeA - drag_x ds;
                 dy = node_y nodeA - drag_y ds;
                 dist = sqrt (dx * dx + dy * dy)
             in if dist < DRAG_PUSH_RADIUS \<and> dist > 0 then
                  bindE (divE dist DRAG_PUSH_RADIUS) (\<lambda>ratio.
                  bindE (divE dx dist) (\<lambda>normalizedDx.
                  bindE (divE dy dist) (\<lambda>normalizedDy.
                    (let pushStrength = (1 - ratio) * DRAG_PUSH_STRENGTH;
                         vx1 = node_vx nodeA + normalizedDx * pushStrength;
                         vy1 = node_vy nodeA + normalizedDy * pushStrength
                     in bindE (divE dist DRAG_PUSH_RADIUS) (\<lambda>ratioX.
                        bindE (divE dist DRAG_PUSH_RADIUS) (\<lambda>ratioY.
                          Inr (nodeA\<lparr>node_vx := vx1 + drag_vx ds * DRAG_VELOCITY_TRANSFER * (1 - ratioX),
                                     node_vy := vy1 + drag_vy ds * DRAG_VELOCITY_TRANSFER * (1 - ratioY)\<rparr>)))))))
                else Inr nodeA)
          else Inr nodeA)"

text \<open>The velocity cap, lines 448 to 452.\<close>

definition capVelocityE :: "CloudNode \<Rightarrow> fault + CloudNode" where
  "capVelocityE nodeA =
     (let speed = speedOf nodeA
      in if speed > MAX_VELOCITY
         then bindE (divE (node_vx nodeA) speed) (\<lambda>ux.
              bindE (divE (node_vy nodeA) speed) (\<lambda>uy.
                Inr (nodeA\<lparr>node_vx := ux * MAX_VELOCITY, node_vy := uy * MAX_VELOCITY\<rparr>)))
         else Inr nodeA)"

text \<open>The loop body after the \<open>continue\<close> guards, one outer iteration, the outer loop and the call.\<close>

definition forceStepE ::
  "DragState \<Rightarrow> (nat \<Rightarrow> real) \<Rightarrow> bool \<Rightarrow> bool \<Rightarrow> nat \<Rightarrow> simState \<Rightarrow> fault + simState" where
  "forceStepE ds rnd inFocusMode isDragged i st =
     (case st of (nodes, maxVelocity, k) \<Rightarrow>
        bindE (elemAt nodes i) (\<lambda>nodeA.
        bindE (parentAttractionE nodes inFocusMode nodeA) (\<lambda>a1.
        bindE (repulsionLoopE ds isDragged (length nodes) i (i + 1) (nodes[i := a1])) (\<lambda>nodes2.
        bindE (elemAt nodes2 i) (\<lambda>a2.
        bindE (dragPushE ds a2) (\<lambda>a3.
          (let (a4, k') = jitterStep rnd k a3;
               speed = speedOf a4
           in bindE (capVelocityE a4) (\<lambda>a5.
                Inr (nodes2[i := integrate a5], max maxVelocity speed, k')))))))))"

definition stepNodeE ::
  "DragState \<Rightarrow> (nat \<Rightarrow> real) \<Rightarrow> string option \<Rightarrow> bool \<Rightarrow> string set option \<Rightarrow>
   CloudNode option \<Rightarrow> string option \<Rightarrow> nat \<Rightarrow> simState \<Rightarrow> fault + simState" where
  "stepNodeE ds rnd focusedNodeId inFocusMode focusedSubtreeIds focusedNode parentOfFocusedSubtask i st =
     (case st of (nodes, maxVelocity, k) \<Rightarrow>
        bindE (elemAt nodes i) (\<lambda>nodeA.
          (let isDragged = isDraggedNode ds nodeA
           in if isDragged then
                Inr (nodes[i := nodeA\<lparr>node_x := drag_x ds, node_y := drag_y ds, node_vx := 0, node_vy := 0\<rparr>],
                     maxVelocity, k)
              else if inSubtree focusedSubtreeIds nodeA then
                Inr (nodes[i := nodeA\<lparr>node_vx := 0, node_vy := 0\<rparr>], maxVelocity, k)
              else
                (let isFocused = isFocusedNode focusedNodeId nodeA;
                     isChild = isChildOfFocused focusedNode nodeA;
                     isParent = isParentOfFocusedSubtask parentOfFocusedSubtask nodeA
                 in if inFocusMode then
                      (if isFocused \<or> isParent then Inr (nodes, maxVelocity, k)
                       else if isChild then Inr (nodes, maxVelocity, k)
                       else Inr (nodes[i := nodeA\<lparr>node_vx := node_vx nodeA * (85 / 100),
                                                  node_vy := node_vy nodeA * (85 / 100)\<rparr>],
                                 maxVelocity, k))
                    else if isFocused \<or> isParent then
                      Inr (nodes[i := nodeA\<lparr>node_vx := 0, node_vy := 0\<rparr>], maxVelocity, k)
                    else if node_type nodeA = Milestone then
                      Inr (nodes[i := nodeA\<lparr>node_vx := 0, node_vy := 0\<rparr>], maxVelocity, k)
                    else forceStepE ds rnd inFocusMode isDragged i (nodes, maxVelocity, k)))))"

function forLoopE ::
  "DragState \<Rightarrow> (nat \<Rightarrow> real) \<Rightarrow> string option \<Rightarrow> bool \<Rightarrow> string set option \<Rightarrow>
   CloudNode option \<Rightarrow> string option \<Rightarrow> nat \<Rightarrow> nat \<Rightarrow> simState \<Rightarrow> fault + simState" where
  "forLoopE ds rnd fid fm ids fnode pfs n i st =
     (if i < n
      then bindE (stepNodeE ds rnd fid fm ids fnode pfs i st)
             (\<lambda>st'. forLoopE ds rnd fid fm ids fnode pfs n (i + 1) st')
      else Inr st)"
  by pat_completeness auto
termination
  by (relation "measure (\<lambda>(ds, rnd, fid, fm, ids, fnode, pfs, n, i, st). n - i)") auto

definition applyForcesE ::
  "DragState \<Rightarrow> (nat \<Rightarrow> real) \<Rightarrow> CloudNode list \<Rightarrow> string option \<Rightarrow> bool \<Rightarrow> string set option \<Rightarrow>
   fault + (CloudNode list \<times> real)" where
  "applyForcesE ds rnd nodes focusedNodeId inFocusMode focusedSubtreeIds =
     (let focusedNode = focusedNodeOf nodes focusedNodeId;
          parentOfFocusedSubtask = parentOfFocusedSubtaskOf focusedNode
      in bindE (forLoopE ds rnd focusedNodeId inFocusMode focusedSubtreeIds focusedNode
                  parentOfFocusedSubtask (length nodes) 0 (nodes, 0, 0))
           (\<lambda>(nodes', maxVelocity, k). Inr (nodes', maxVelocity)))"

section \<open>The node graph builder (\<open>createNodes\<close>)\<close>

text \<open>
  The entity tree, with the fields \<open>createNodes\<close> reads. \<open>x?\<close> and \<open>y?\<close> of a milestone are
  optional; an absent \<open>tasks\<close> or \<open>subtasks\<close> array is treated by the code as the empty array
  (\<open>milestone.tasks || []\<close>, \<open>task.subtasks || []\<close>, \<open>task.subtasks?.\<close>), so both are lists here.
\<close>

record SubtaskE =
  subtask_id :: string
  subtask_completed :: bool

record TaskE =
  task_id :: string
  task_subtasks :: "SubtaskE list"

record MilestoneE =
  milestone_id :: string
  milestone_x :: "real option"
  milestone_y :: "real option"
  milestone_tasks :: "TaskE list"

text \<open>
  \<open>existingPositions\<close>: filled by \<open>forEach\<close> with \<open>Map.set\<close>, so the last node with an id wins;
  empty when \<open>existingNodes\<close> is absent.
\<close>

definition existingPositionsOf :: "CloudNode list option \<Rightarrow> string \<Rightarrow> (real \<times> real) option" where
  "existingPositionsOf existingNodes =
     (case existingNodes of
        None \<Rightarrow> Map.empty
      | Some ns \<Rightarrow> map_of (map (\<lambda>n. (node_id n, (node_x n, node_y n))) (rev ns)))"

text \<open>The inner \<open>subtasks.forEach((subtask, k) => ...)\<close>: one pushed node per subtask.\<close>

definition subtaskNode ::
  "(string \<Rightarrow> (real \<times> real) option) \<Rightarrow> string \<Rightarrow> real \<Rightarrow> real \<Rightarrow> real \<Rightarrow> nat \<Rightarrow> nat \<Rightarrow> SubtaskE \<Rightarrow> CloudNode" where
  "subtaskNode existingPositions tid tx ty taskRadius len k subtask =
     (let (sx, sy) =
            (case existingPositions (subtask_id subtask) of
               Some (ex, ey) \<Rightarrow> (ex, ey)
             | None \<Rightarrow>
                 (let subtaskAngle = (real k / real (max len 1)) * pi * 2;
                      subtaskOrbit = taskRadius + SUBTASK_RADIUS + 20
                  in (tx + cos subtaskAngle * subtaskOrbit, ty + sin subtaskAngle * subtaskOrbit)))
      in \<lparr>node_id = subtask_id subtask, node_type = Subtask, node_x = sx, node_y = sy,
          node_vx = 0, node_vy = 0, node_radius = SUBTASK_RADIUS, node_parentId = Some tid\<rparr>)"

fun subtaskLoop ::
  "(string \<Rightarrow> (real \<times> real) option) \<Rightarrow> string \<Rightarrow> real \<Rightarrow> real \<Rightarrow> real \<Rightarrow> nat \<Rightarrow> nat \<Rightarrow> SubtaskE list \<Rightarrow> CloudNode list" where
  "subtaskLoop existingPositions tid tx ty taskRadius len k [] = []"
| "subtaskLoop existingPositions tid tx ty taskRadius len k (subtask # rest) =
     subtaskNode existingPositions tid tx ty taskRadius len k subtask #
     subtaskLoop existingPositions tid tx ty taskRadius len (k + 1) rest"

text \<open>
  \<open>tasks.forEach((task, j) => ...)\<close>. A task without an earlier position draws its orbit radius
  from \<open>Math.random()\<close>; \<open>rc\<close> is the read index of the random source and is returned advanced.
\<close>

fun taskLoop ::
  "(nat \<Rightarrow> real) \<Rightarrow> (string \<Rightarrow> (real \<times> real) option) \<Rightarrow> CloudNode option \<Rightarrow> string \<Rightarrow> real \<Rightarrow> real \<Rightarrow>
   nat \<Rightarrow> nat \<Rightarrow> TaskE list \<Rightarrow> nat \<Rightarrow> CloudNode list \<times> nat" where
  "taskLoop rnd existingPositions focusedNode mid mx my taskCount j [] rc = ([], rc)"
| "taskLoop rnd existingPositions focusedNode mid mx my taskCount j (task # rest) rc =
     (let incompleteSubtaskCount = length (filter (\<lambda>st. \<not> subtask_completed st) (task_subtasks task));
          taskRadius = TASK_RADIUS_BASE + real incompleteSubtaskCount * TASK_RADIUS_PER_SUBTASK;
          (tx, ty, rc1) =
            (case existingPositions (task_id task) of
               Some (ex, ey) \<Rightarrow> (ex, ey, rc)
             | None \<Rightarrow>
                 (let taskAngle = (if taskCount > 1 then (real j / real taskCount) * pi * 2 else 0);
                      taskOrbitRadius = TASK_ORBIT_RADIUS_MIN +
                                        rnd rc * (TASK_ORBIT_RADIUS_MAX - TASK_ORBIT_RADIUS_MIN)
                  in (mx + cos taskAngle * taskOrbitRadius, my + sin taskAngle * taskOrbitRadius, rc + 1)));
          taskNode = \<lparr>node_id = task_id task, node_type = Task, node_x = tx, node_y = ty,
                      node_vx = 0, node_vy = 0, node_radius = taskRadius, node_parentId = Some mid\<rparr>;
          isTaskFocused = (case focusedNode of None \<Rightarrow> False | Some fn \<Rightarrow> node_id fn = task_id task);
          isSubtaskFocused = (case focusedNode of
                                None \<Rightarrow> False
                              | Some fn \<Rightarrow> node_type fn = Subtask \<and>
                                          list_ex (\<lambda>st. subtask_id st = node_id fn) (task_subtasks task));
          subs = (if isTaskFocused \<or> isSubtaskFocused
                  then subtaskLoop existingPositions (task_id task) tx ty taskRadius
                         (length (task_subtasks task)) 0 (task_subtasks task)
                  else []);
          (restNodes, rc2) = taskLoop rnd existingPositions focusedNode mid mx my taskCount (j + 1) rest rc1
      in (taskNode # subs @ restNodes, rc2))"

text \<open>\<open>milestones.forEach((milestone, i) => ...)\<close>\<close>

fun milestoneLoop ::
  "(nat \<Rightarrow> real) \<Rightarrow> (string \<Rightarrow> (real \<times> real) option) \<Rightarrow> CloudNode option \<Rightarrow> real \<Rightarrow> real \<Rightarrow>
   nat \<Rightarrow> nat \<Rightarrow> MilestoneE list \<Rightarrow> nat \<Rightarrow> CloudNode list \<times> nat" where
  "milestoneLoop rnd existingPositions focusedNode width height milestoneCount i [] rc = ([], rc)"
| "milestoneLoop rnd existingPositions focusedNode width height milestoneCount i (milestone # rest) rc =
     (let centerX = width / 2;
          centerY = height / 2;
          (mx, my) =
            (case (milestone_x milestone, milestone_y milestone) of
               (Some sx, Some sy) \<Rightarrow> (sx, sy)
             | _ \<Rightarrow>
                 (let angle = (if milestoneCount > 1
                               then (real i / real milestoneCount) * pi * 2 - pi / 2 else 0);
                      orbitRadius = min width height * (3 / 10)
                  in (if milestoneCount > 1 then centerX + cos angle * orbitRadius else centerX,
                      if milestoneCount > 1 then centerY + sin angle * orbitRadius else centerY)));
          milestoneNode = \<lparr>node_id = milestone_id milestone, node_type = Milestone, node_x = mx, node_y = my,
                           node_vx = 0, node_vy = 0, node_radius = MILESTONE_RADIUS, node_parentId = None\<rparr>;
          (taskNodes, rc1) = taskLoop rnd existingPositions focusedNode (milestone_id milestone) mx my
                               (length (milestone_tasks milestone)) 0 (milestone_tasks milestone) rc;
          (restNodes, rc2) = milestoneLoop rnd existingPositions focusedNode width height milestoneCount (i + 1) rest rc1
      in (milestoneNode # taskNodes @ restNodes, rc2))"

definition createNodes ::
  "(nat \<Rightarrow> real) \<Rightarrow> MilestoneE list \<Rightarrow> real \<Rightarrow> real \<Rightarrow> CloudNode option \<Rightarrow> CloudNode list option \<Rightarrow> CloudNode list" where
  "createNodes rnd milestones width height focusedNode existingNodes =
     fst (milestoneLoop rnd (existingPositionsOf existingNodes) focusedNode width height
            (length milestones) 0 milestones 0)"

section \<open>The focus layout (\<open>refreshFocusLayout\<close> in \<open>SkyCanvas.tsx\<close>)\<close>

text \<open>
  The layout reads each cloud's \<open>requiredCoverageR\<close> after \<open>computeRequiredSizeNow\<close>; measuring
  the rendered text is outside the engine, so the measured value per node id is the parameter
  \<open>cov\<close> (\<open>None\<close>: no cloud for that id). \<open>a || b\<close> on numbers takes \<open>b\<close> when \<open>a\<close> is \<open>0\<close>.
  The body runs in a \<open>requestAnimationFrame\<close> callback guarded by a focus token; the model is
  the body itself, for a callback that is not stale.
\<close>

definition ORBIT_GAP :: real where "ORBIT_GAP = 15"

definition childCoverage :: "(string \<Rightarrow> real option) \<Rightarrow> CloudNode \<Rightarrow> real" where
  "childCoverage cov child =
     (case cov (node_id child) of
        Some r \<Rightarrow> (if r = 0 then node_radius child + 40 else r)
      | None \<Rightarrow> node_radius child + 40)"

text \<open>\<open>let maxChildR = 0; for (const child of children) maxChildR = Math.max(maxChildR, ...)\<close>\<close>

fun maxChildLoop :: "(string \<Rightarrow> real option) \<Rightarrow> real \<Rightarrow> CloudNode list \<Rightarrow> real" where
  "maxChildLoop cov maxChildR [] = maxChildR"
| "maxChildLoop cov maxChildR (child # rest) = maxChildLoop cov (max maxChildR (childCoverage cov child)) rest"

definition orbitRadiusOf :: "real \<Rightarrow> real \<Rightarrow> nat \<Rightarrow> real" where
  "orbitRadiusOf parentCoverageR maxChildR childCount =
     (let orbitRadius = parentCoverageR + ORBIT_GAP + maxChildR;
          minArc = maxChildR * 2 + 30;
          orbitRadius_byArc = (real childCount * minArc) / (2 * pi)
      in max orbitRadius orbitRadius_byArc)"

text \<open>\<open>children.forEach((child, i) => ...)\<close>: the placement of child \<open>i\<close> of \<open>len\<close>.\<close>

definition placeChild :: "CloudNode \<Rightarrow> real \<Rightarrow> nat \<Rightarrow> nat \<Rightarrow> CloudNode \<Rightarrow> CloudNode" where
  "placeChild parentNode orbitRadius len i child =
     (let angle = - pi / 2 + (real i / real len) * pi * 2
      in child\<lparr>node_x := node_x parentNode + cos angle * orbitRadius,
               node_y := node_y parentNode + sin angle * orbitRadius,
               node_vx := 0, node_vy := 0\<rparr>)"

fun placeLoop :: "CloudNode \<Rightarrow> real \<Rightarrow> nat \<Rightarrow> nat \<Rightarrow> CloudNode list \<Rightarrow> CloudNode list" where
  "placeLoop parentNode orbitRadius len i [] = []"
| "placeLoop parentNode orbitRadius len i (child # rest) =
     placeChild parentNode orbitRadius len i child # placeLoop parentNode orbitRadius len (i + 1) rest"

text \<open>
  The result of one refresh: the children as placed (they are the node objects of the graph,
  mutated in place), the focus layout map as the list of its entries in insertion order, and
  the orbit radius that was used.
\<close>

record FocusLayout =
  layout_children :: "CloudNode list"
  layout_positions :: "(string \<times> real \<times> real) list"
  layout_orbitRadius :: real

text \<open>
  The body of the animation-frame callback, for a parent node with at least one child.
  \<open>None\<close>: the parent has no cloud and the callback returns without a layout.
\<close>

definition focusLayoutFrame :: "(string \<Rightarrow> real option) \<Rightarrow> CloudNode \<Rightarrow> CloudNode list \<Rightarrow> FocusLayout option" where
  "focusLayoutFrame cov parentNode children =
     (case cov (node_id parentNode) of
        None \<Rightarrow> None
      | Some parentRequired \<Rightarrow>
          (let maxChildR = maxChildLoop cov 0 children;
               parentCoverageR = (if parentRequired = 0 then node_radius parentNode else parentRequired);
               orbitRadius = orbitRadiusOf parentCoverageR maxChildR (length children);
               placed = placeLoop parentNode orbitRadius (length children) 0 children
           in Some \<lparr>layout_children = placed,
                    layout_positions = (node_id parentNode, node_x parentNode, node_y parentNode) #
                                       map (\<lambda>c. (node_id c, node_x c, node_y c)) placed,
                    layout_orbitRadius = orbitRadius\<rparr>))"

text \<open>
  \<open>refreshFocusLayout\<close>: the children are the nodes whose \<open>parentId\<close> is the focused id, the
  parent is the first node with that id. Without a parent node nothing happens; without
  children the map holds the parent's own position only.
\<close>

definition refreshFocusLayout :: "(string \<Rightarrow> real option) \<Rightarrow> CloudNode list \<Rightarrow> CloudNode \<Rightarrow> FocusLayout option" where
  "refreshFocusLayout cov nodes focusedNode =
     (let children = filter (\<lambda>n. node_parentId n = Some (node_id focusedNode)) nodes
      in case find (\<lambda>n. node_id n = node_id focusedNode) nodes of
           None \<Rightarrow> None
         | Some parentNode \<Rightarrow>
             if children = []
             then Some \<lparr>layout_children = [],
                       layout_positions = [(node_id parentNode, node_x parentNode, node_y parentNode)],
                       layout_orbitRadius = 0\<rparr>
             else focusLayoutFrame cov parentNode children)"

section \<open>The seeded generator (\<open>utils/SeededRandom.ts\<close>)\<close>

text \<open>
  \<open>SeededRandom.next\<close> (mulberry32). The field \<open>state\<close> is a JavaScript number that grows by
  \<open>0x6D2B79F5\<close> per call and is never truncated, so it is an \<^typ>\<open>int\<close> here; every use of it goes
  through a 32-bit operator, which reads it modulo \<open>2^32\<close>. \<open>Math.imul\<close> is the product of
  \<^typ>\<open>32 word\<close>, \<open>>>>\<close> is \<^const>\<open>drop_bit\<close>. The model returns the drawn value and the new state.
\<close>

definition rng_next :: "int \<Rightarrow> real \<times> int" where
  "rng_next state =
     (let state' = state + 0x6D2B79F5;
          t0 = (word_of_int state' :: 32 word);
          t1 = (t0 XOR drop_bit 15 t0) * (t0 OR 1);
          t2 = t1 XOR (t1 + (t1 XOR drop_bit 7 t1) * (t1 OR 61))
      in (real (unat (t2 XOR drop_bit 14 t2)) / 4294967296, state'))"

text \<open>\<open>Math.round\<close> rounds half up; an integer is printed in decimal (sizes stay far below \<open>10^21\<close>).\<close>

definition jsRound :: "real \<Rightarrow> int" where
  "jsRound v = \<lfloor>v + 1 / 2\<rfloor>"

function showNat :: "nat \<Rightarrow> string" where
  "showNat n = (if n < 10 then [char_of (48 + n)] else showNat (n div 10) @ [char_of (48 + n mod 10)])"
  by pat_completeness auto
termination
  by (relation "measure id") auto

definition showInt :: "int \<Rightarrow> string" where
  "showInt i = (if i < 0 then CHR ''-'' # showNat (nat (- i)) else showNat (nat i))"

text \<open>
  \<open>createMorphSeed\<close>: \<open>hash = ((hash << 5) - hash) + char; hash = hash & hash\<close> over the
  characters of the key, in 32-bit arithmetic; the result is \<open>Math.abs(hash) >>> 0\<close>.
\<close>

definition hashStep :: "32 word \<Rightarrow> char \<Rightarrow> 32 word" where
  "hashStep hash c = (push_bit 5 hash - hash) + of_char c"

definition createMorphSeed :: "string \<Rightarrow> string \<Rightarrow> real \<Rightarrow> real \<Rightarrow> int" where
  "createMorphSeed nodeId mode requiredW requiredH =
     (let str = nodeId @ ''-'' @ mode @ ''-'' @ showInt (jsRound (requiredW / 10)) @ ''-'' @
                showInt (jsRound (requiredH / 10));
          hash = foldl hashStep 0 str
      in \<bar>sint hash\<bar>)"

section \<open>Clouds and the shape synthesizer (\<open>components/Cloud.ts\<close>)\<close>

record Puff =
  puff_x :: real
  puff_y :: real
  puff_r :: real

text \<open>
  The fields of a \<open>Cloud\<close> that the puff synthesis and the morph read or write. \<open>hitArea\<close> is
  the pair of radii of the ellipse.
\<close>

record Cloud =
  cloud_node :: CloudNode
  isChildOfFocusedNode :: bool
  basePuffs :: "Puff list"
  targetPuffs :: "Puff list"
  currentPuffs :: "Puff list"
  morphComplete :: bool
  coverageR :: real
  requiredCoverageR :: real
  hitArea :: "(real \<times> real) option"

text \<open>The constructor: the bump offsets and the base puffs, from a generator seeded by the node id.\<close>

definition bumpCountOf :: "EntityType \<Rightarrow> nat" where
  "bumpCountOf t = (case t of Milestone \<Rightarrow> 7 | Task \<Rightarrow> 6 | Subtask \<Rightarrow> 5)"

function bumpLoop :: "real \<Rightarrow> nat \<Rightarrow> nat \<Rightarrow> int \<Rightarrow> Puff list" where
  "bumpLoop r bumpCount i st =
     (if i < bumpCount then
        (let (u1, st1) = rng_next st;
             angle = (real i / real bumpCount) * pi * 2 + (u1 - 1 / 2) * (3 / 10);
             (u2, st2) = rng_next st1;
             radiusMult = 35 / 100 + u2 * (2 / 10);
             (u3, st3) = rng_next st2;
             distMult = 4 / 10 + u3 * (15 / 100);
             dist = r * distMult
         in \<lparr>puff_x = cos angle * dist, puff_y = sin angle * dist, puff_r = r * radiusMult\<rparr> #
            bumpLoop r bumpCount (i + 1) st3)
      else [])"
  by pat_completeness auto
termination
  by (relation "measure (\<lambda>(r, bumpCount, i, st). bumpCount - i)") auto

definition newCloud :: "CloudNode \<Rightarrow> Cloud" where
  "newCloud node =
     (let baseSeed = createMorphSeed (node_id node) ''base'' 0 0;
          (breathe, st1) = rng_next baseSeed;
          r = node_radius node;
          base = \<lparr>puff_x = 0, puff_y = 0, puff_r = r * (65 / 100)\<rparr> #
                 bumpLoop r (bumpCountOf (node_type node)) 0 st1
      in \<lparr>cloud_node = node, isChildOfFocusedNode = False, basePuffs = base, targetPuffs = base,
          currentPuffs = base, morphComplete = True, coverageR = 0, requiredCoverageR = 0,
          hitArea = None\<rparr>)"

text \<open>The profile variables of \<open>computeMorphPuffs\<close>.\<close>

record Profile =
  totalPuffCount :: nat
  interiorRatio :: real
  ringDistFactor :: real
  noiseAmp :: real
  puffRadiusBase :: real
  puffRadiusMin :: real
  puffRadiusMax :: real

definition focusedProfile :: "real \<Rightarrow> real \<Rightarrow> real \<Rightarrow> Profile" where
  "focusedProfile parentCoverageRx parentCoverageRy parentCoverageR =
     (let area = pi * parentCoverageRx * parentCoverageRy
      in \<lparr>totalPuffCount = nat (min 34 (max 24 (18 + \<lfloor>area / 5500\<rfloor>))),
          interiorRatio = 80 / 100,
          ringDistFactor = 50 / 100,
          noiseAmp = 20 / 100,
          puffRadiusBase = max (parentCoverageR * (27 / 100)) 18,
          puffRadiusMin = 14,
          puffRadiusMax = min (parentCoverageR * (45 / 100)) 40\<rparr>)"

definition childProfile :: "nat \<Rightarrow> real \<Rightarrow> Profile" where
  "childProfile basePuffCount parentCoverageR =
     \<lparr>totalPuffCount = max 10 (basePuffCount * 2),
      interiorRatio = 65 / 100,
      ringDistFactor = 50 / 100,
      noiseAmp = 15 / 1000,
      puffRadiusBase = max (parentCoverageR * (27 / 100)) 18,
      puffRadiusMin = max 8 (parentCoverageR * (15 / 100)),
      puffRadiusMax = max 16 (parentCoverageR * (40 / 100))\<rparr>"

text \<open>Child mode, ring puffs: \<open>for (let i = 0; i < actualRingCount; i++)\<close>.\<close>

function childRingLoop :: "Profile \<Rightarrow> real \<Rightarrow> nat \<Rightarrow> nat \<Rightarrow> int \<Rightarrow> Puff list \<times> int" where
  "childRingLoop pf parentCoverageR actualRingCount i st =
     (if i < actualRingCount then
        (let angle = (real i / real actualRingCount) * pi * 2;
             (u1, st1) = rng_next st;
             noise = (u1 - 1 / 2) * noiseAmp pf;
             distFactor = ringDistFactor pf + noise;
             dist = parentCoverageR * distFactor;
             px = cos angle * dist;
             py = sin angle * dist;
             (u2, st2) = rng_next st1;
             pr = max (puffRadiusMin pf)
                    (min (puffRadiusMax pf) (puffRadiusBase pf * (12 / 10) * (70 / 100 + u2 * (60 / 100))));
             maxAllowedR = parentCoverageR - dist + pr * (1 / 2);
             finalR = min pr maxAllowedR;
             (rest, st') = childRingLoop pf parentCoverageR actualRingCount (i + 1) st2
         in (\<lparr>puff_x = px, puff_y = py, puff_r = max (puffRadiusMin pf) finalR\<rparr> # rest, st'))
      else ([], st))"
  by pat_completeness auto
termination
  by (relation "measure (\<lambda>(pf, R, n, i, st). n - i)") auto

text \<open>
  Interior puffs. The child loop and the focused loop have the same body up to the constant
  that scales \<open>Math.sqrt(rng.next())\<close> (\<open>0.50\<close> and \<open>0.55\<close>), here \<open>spread\<close>.
\<close>

function interiorLoop :: "Profile \<Rightarrow> real \<Rightarrow> real \<Rightarrow> nat \<Rightarrow> nat \<Rightarrow> int \<Rightarrow> Puff list \<times> int" where
  "interiorLoop pf parentCoverageR spread count i st =
     (if i < count then
        (let (u1, st1) = rng_next st;
             angle = u1 * pi * 2;
             (u2, st2) = rng_next st1;
             dist = sqrt u2 * spread;
             interiorDist = parentCoverageR * dist;
             (u3, st3) = rng_next st2;
             interiorR = max (puffRadiusMin pf)
                           (min (puffRadiusMax pf) (puffRadiusBase pf * (60 / 100 + u3 * (80 / 100))));
             (rest, st') = interiorLoop pf parentCoverageR spread count (i + 1) st3
         in (\<lparr>puff_x = cos angle * interiorDist, puff_y = sin angle * interiorDist, puff_r = interiorR\<rparr> # rest,
             st'))
      else ([], st))"
  by pat_completeness auto
termination
  by (relation "measure (\<lambda>(pf, R, spread, n, i, st). n - i)") auto

text \<open>Focused mode, ring puffs: \<open>for (let i = 0; i < ringCount - 1; i++)\<close>; \<open>m\<close> is \<open>ringCount - 1\<close>.\<close>

function focusedRingLoop :: "Profile \<Rightarrow> real \<Rightarrow> nat \<Rightarrow> nat \<Rightarrow> int \<Rightarrow> Puff list \<times> int" where
  "focusedRingLoop pf parentCoverageR m i st =
     (if i < m then
        (let angle = (real i / real m) * pi * 2;
             (u1, st1) = rng_next st;
             noise = (u1 - 1 / 2) * noiseAmp pf;
             distFactor = ringDistFactor pf + noise;
             dist = parentCoverageR * distFactor;
             px = cos angle * dist;
             py = sin angle * dist;
             (u2, st2) = rng_next st1;
             pr = max (puffRadiusMin pf)
                    (min (puffRadiusMax pf) (puffRadiusBase pf * (70 / 100 + u2 * (60 / 100))));
             (rest, st') = focusedRingLoop pf parentCoverageR m (i + 1) st2
         in (\<lparr>puff_x = px, puff_y = py, puff_r = pr\<rparr> # rest, st'))
      else ([], st))"
  by pat_completeness auto
termination
  by (relation "measure (\<lambda>(pf, R, m, i, st). m - i)") auto

text \<open>Focused mode, corner anchors: \<open>for (const angle of cornerAngles)\<close>.\<close>

fun cornerLoop :: "Profile \<Rightarrow> real \<Rightarrow> real list \<Rightarrow> int \<Rightarrow> Puff list \<times> int" where
  "cornerLoop pf parentCoverageR [] st = ([], st)"
| "cornerLoop pf parentCoverageR (angle # angles) st =
     (let cornerDist = parentCoverageR * (50 / 100);
          (u, st1) = rng_next st;
          cornerR = puffRadiusBase pf * (85 / 100 + u * (30 / 100));
          (rest, st') = cornerLoop pf parentCoverageR angles st1
      in (\<lparr>puff_x = cos angle * cornerDist, puff_y = sin angle * cornerDist,
           puff_r = max (puffRadiusMin pf) (min (puffRadiusMax pf) cornerR)\<rparr> # rest, st'))"

definition cornerAngles :: "real list" where
  "cornerAngles = [pi * (25 / 100), pi * (75 / 100), pi * (125 / 100), pi * (175 / 100)]"

text \<open>
  \<open>computeMorphPuffs(requiredW, requiredH)\<close>: sets \<open>coverageR\<close>, \<open>targetPuffs\<close>, \<open>hitArea\<close> and
  clears \<open>morphComplete\<close>.
\<close>

definition computeMorphPuffs :: "real \<Rightarrow> real \<Rightarrow> Cloud \<Rightarrow> Cloud" where
  "computeMorphPuffs requiredW requiredH c =
     (let margin = 25;
          parentCoverageRx = requiredW / 2 + margin;
          parentCoverageRy = requiredH / 2 + margin;
          parentCoverageR = max parentCoverageRx parentCoverageRy;
          mode = (if isChildOfFocusedNode c then ''child'' else ''focused'');
          seed = createMorphSeed (node_id (cloud_node c)) mode requiredW requiredH;
          pf = (if mode = ''focused''
                then focusedProfile parentCoverageRx parentCoverageRy parentCoverageR
                else childProfile (length (basePuffs c)) parentCoverageR);
          interiorCount = nat \<lfloor>real (totalPuffCount pf) * interiorRatio pf\<rfloor>;
          ringCount = totalPuffCount pf - interiorCount;
          centerR = (if mode = ''child''
                     then max (puffRadiusMax pf * (12 / 10)) (parentCoverageR * (50 / 100))
                     else min parentCoverageRx parentCoverageRy * (45 / 100));
          center = \<lparr>puff_x = 0, puff_y = 0, puff_r = centerR\<rparr>;
          puffs =
            (if mode = ''child'' then
               (let actualRingCount = min 4 ringCount;
                    (ring, st1) = childRingLoop pf parentCoverageR actualRingCount 0 seed;
                    actualInteriorCount = totalPuffCount pf - actualRingCount - 1;
                    (interior, st2) = interiorLoop pf parentCoverageR (50 / 100) actualInteriorCount 0 st1
                in center # ring @ interior)
             else
               (let (ring, st1) = focusedRingLoop pf parentCoverageR (ringCount - 1) 0 seed;
                    (corners, st2) = cornerLoop pf parentCoverageR cornerAngles st1;
                    (interior, st3) = interiorLoop pf parentCoverageR (55 / 100) interiorCount 0 st2
                in center # ring @ corners @ interior))
      in c\<lparr>coverageR := parentCoverageR, targetPuffs := puffs,
           hitArea := Some (parentCoverageRx, parentCoverageRy), morphComplete := False\<rparr>)"

text \<open>
  The two callers of \<open>computeMorphPuffs\<close>, which is private: \<open>layoutFocusedContent\<close> and
  \<open>layoutChildContent\<close>, from the measurement of the content on. \<open>b\<close> is the rectangle that
  \<open>getLocalBounds()\<close> returns for the content container; the renderer measures it, so its width
  and height are the parameters \<open>bw\<close> and \<open>bh\<close>.
\<close>

definition PADDING_X :: real where "PADDING_X = 40"
definition PADDING_Y :: real where "PADDING_Y = 32"

definition layoutFocusedContent :: "real \<Rightarrow> real \<Rightarrow> Cloud \<Rightarrow> Cloud" where
  "layoutFocusedContent bw bh c =
     (let requiredW = bw + PADDING_X * 2;
          requiredH = bh + PADDING_Y * 2;
          margin = 15;
          rx = requiredW / 2 + margin;
          ry = requiredH / 2 + margin
      in computeMorphPuffs requiredW requiredH (c\<lparr>requiredCoverageR := max rx ry\<rparr>))"

definition layoutChildContent :: "real \<Rightarrow> real \<Rightarrow> Cloud \<Rightarrow> Cloud" where
  "layoutChildContent bw bh c =
     (let childPaddingX = 30;
          childPaddingY = 25;
          requiredW = bw + childPaddingX * 2;
          requiredH = bh + childPaddingY * 2;
          margin = 15;
          rx = requiredW / 2 + margin;
          ry = requiredH / 2 + margin
      in computeMorphPuffs requiredW requiredH (c\<lparr>requiredCoverageR := max rx ry\<rparr>))"

section \<open>The morph interpolation (\<open>Cloud.update\<close>)\<close>

text \<open>\<open>while (this.currentPuffs.length < this.targetPuffs.length) this.currentPuffs.push({x: 0, y: 0, r: 0})\<close>;
  the flag is \<open>allSettled\<close>, cleared by each push.\<close>

function growPuffs :: "nat \<Rightarrow> Puff list \<Rightarrow> bool \<Rightarrow> Puff list \<times> bool" where
  "growPuffs n cur allSettled =
     (if length cur < n
      then growPuffs n (cur @ [\<lparr>puff_x = 0, puff_y = 0, puff_r = 0\<rparr>]) False
      else (cur, allSettled))"
  by pat_completeness auto
termination
  by (relation "measure (\<lambda>(n, cur, allSettled). n - length cur)") auto

text \<open>\<open>while (this.currentPuffs.length > this.targetPuffs.length) this.currentPuffs.pop()\<close>\<close>

function shrinkPuffs :: "nat \<Rightarrow> Puff list \<Rightarrow> Puff list" where
  "shrinkPuffs n cur = (if length cur > n then shrinkPuffs n (butlast cur) else cur)"
  by pat_completeness auto
termination
  by (relation "measure (\<lambda>(n, cur). length cur - n)") auto

definition morphSpeed :: real where "morphSpeed = 25 / 100"

definition puffFar :: "Puff \<Rightarrow> Puff \<Rightarrow> bool" where
  "puffFar current target =
     (let dx = \<bar>puff_x current - puff_x target\<bar>;
          dy = \<bar>puff_y current - puff_y target\<bar>;
          dr = \<bar>puff_r current - puff_r target\<bar>
      in dx > 3 / 10 \<or> dy > 3 / 10 \<or> dr > 3 / 10)"

definition movePuff :: "real \<Rightarrow> Puff \<Rightarrow> Puff \<Rightarrow> Puff" where
  "movePuff deltaTime current target =
     \<lparr>puff_x = puff_x current + (puff_x target - puff_x current) * morphSpeed * deltaTime,
      puff_y = puff_y current + (puff_y target - puff_y current) * morphSpeed * deltaTime,
      puff_r = puff_r current + (puff_r target - puff_r current) * morphSpeed * deltaTime\<rparr>"

text \<open>
  \<open>for (let i = 0; i < this.currentPuffs.length; i++)\<close>, with
  \<open>target = this.targetPuffs[i] || this.basePuffs[i % this.basePuffs.length]\<close>. After the two
  \<open>while\<close> loops both lists have the same length, so the fallback is never taken.
\<close>

function interpLoop :: "real \<Rightarrow> Puff list \<Rightarrow> Puff list \<Rightarrow> nat \<Rightarrow> Puff list \<Rightarrow> bool \<Rightarrow> Puff list \<times> bool" where
  "interpLoop deltaTime targets base i cur allSettled =
     (if i < length cur then
        (let current = cur ! i;
             target = (if i < length targets then targets ! i else base ! (i mod length base))
         in if puffFar current target
            then interpLoop deltaTime targets base (i + 1) (cur[i := movePuff deltaTime current target]) False
            else interpLoop deltaTime targets base (i + 1) cur allSettled)
      else (cur, allSettled))"
  by pat_completeness auto
termination
  by (relation "measure (\<lambda>(deltaTime, targets, base, i, cur, allSettled). length cur - i)") auto

text \<open>
  The morph block of \<open>update(deltaTime)\<close>, reached when the cloud is not spawning, dissolving
  or being dragged: \<open>if (!this.morphComplete) { ... }\<close>.
\<close>

definition updateMorph :: "real \<Rightarrow> Cloud \<Rightarrow> Cloud" where
  "updateMorph deltaTime c =
     (if \<not> morphComplete c then
        (let (cur1, settled1) = growPuffs (length (targetPuffs c)) (currentPuffs c) True;
             cur2 = shrinkPuffs (length (targetPuffs c)) cur1;
             (cur3, allSettled) = interpLoop deltaTime (targetPuffs c) (basePuffs c) 0 cur2 settled1
         in c\<lparr>currentPuffs := cur3, morphComplete := (if allSettled then True else morphComplete c)\<rparr>)
      else c)"

section \<open>Auxiliary notions for the proofs\<close>

text \<open>
  \<open>velChange a b\<close>: node \<open>b\<close> is node \<open>a\<close> up to its velocity. \<open>identEq a b\<close>: \<open>b\<close> has the id,
  type, parent and radius of \<open>a\<close>; every guard of the loop body reads these fields only.
  \<open>stepFrame i nodes nodes'\<close> is what one outer iteration may change: nothing below index \<open>i\<close>,
  only velocities at the other indices, and at index \<open>i\<close> anything but the identity.
\<close>

definition velChange :: "CloudNode \<Rightarrow> CloudNode \<Rightarrow> bool" where
  "velChange a b = (b\<lparr>node_vx := 0, node_vy := 0\<rparr> = a\<lparr>node_vx := 0, node_vy := 0\<rparr>)"

definition identEq :: "CloudNode \<Rightarrow> CloudNode \<Rightarrow> bool" where
  "identEq a b = (node_id b = node_id a \<and> node_type b = node_type a \<and>
                  node_parentId b = node_parentId a \<and> node_radius b = node_radius a)"

definition stepFrame :: "nat \<Rightarrow> CloudNode list \<Rightarrow> CloudNode list \<Rightarrow> bool" where
  "stepFrame i nodes nodes' =
     (length nodes' = length nodes \<and>
      (\<forall>j<i. nodes' ! j = nodes ! j) \<and>
      (\<forall>j<length nodes. j \<noteq> i \<longrightarrow> velChange (nodes ! j) (nodes' ! j)) \<and>
      (i < length nodes \<longrightarrow> identEq (nodes ! i) (nodes' ! i)))"

text \<open>
  The guards of the outer loop body as predicates on a node: \<open>lockedNode\<close> holds for the nodes
  that take one of the branches that zero the velocity and \<open>continue\<close>; \<open>forcesApply\<close> for the
  nodes that reach the force computation. \<open>focusModeNode\<close> is what the body does to a node in
  focus mode, \<open>quietNode\<close> what it does to a node that does not reach the forces.
\<close>

definition lockedNode ::
  "DragState \<Rightarrow> string option \<Rightarrow> bool \<Rightarrow> string set option \<Rightarrow> string option \<Rightarrow> CloudNode \<Rightarrow> bool" where
  "lockedNode ds fid fm ids pfs a =
     (\<not> isDraggedNode ds a \<and>
      (inSubtree ids a \<or>
       (\<not> fm \<and> (isFocusedNode fid a \<or> isParentOfFocusedSubtask pfs a \<or> node_type a = Milestone))))"

definition forcesApply ::
  "DragState \<Rightarrow> string option \<Rightarrow> bool \<Rightarrow> string set option \<Rightarrow> string option \<Rightarrow> CloudNode \<Rightarrow> bool" where
  "forcesApply ds fid fm ids pfs a =
     (\<not> isDraggedNode ds a \<and> \<not> inSubtree ids a \<and> \<not> fm \<and> \<not> isFocusedNode fid a \<and>
      \<not> isParentOfFocusedSubtask pfs a \<and> node_type a \<noteq> Milestone)"

definition focusModeNode ::
  "DragState \<Rightarrow> string option \<Rightarrow> string set option \<Rightarrow> CloudNode option \<Rightarrow> string option \<Rightarrow> CloudNode \<Rightarrow> CloudNode" where
  "focusModeNode ds fid ids fnode pfs a =
     (if isDraggedNode ds a
      then a\<lparr>node_x := drag_x ds, node_y := drag_y ds, node_vx := 0, node_vy := 0\<rparr>
      else if inSubtree ids a then a\<lparr>node_vx := 0, node_vy := 0\<rparr>
      else if isFocusedNode fid a \<or> isParentOfFocusedSubtask pfs a \<or> isChildOfFocused fnode a then a
      else a\<lparr>node_vx := node_vx a * (85 / 100), node_vy := node_vy a * (85 / 100)\<rparr>)"

definition quietNode ::
  "DragState \<Rightarrow> string option \<Rightarrow> bool \<Rightarrow> string set option \<Rightarrow> CloudNode option \<Rightarrow> string option \<Rightarrow> CloudNode \<Rightarrow> CloudNode" where
  "quietNode ds fid fm ids fnode pfs a =
     (if fm then focusModeNode ds fid ids fnode pfs a
      else if isDraggedNode ds a
      then a\<lparr>node_x := drag_x ds, node_y := drag_y ds, node_vx := 0, node_vy := 0\<rparr>
      else a\<lparr>node_vx := 0, node_vy := 0\<rparr>)"

text \<open>Example inputs: three clouds, a milestone, and the drag state with and without a drag.\<close>

definition exNodeP :: CloudNode where
  "exNodeP = \<lparr>node_id = ''p'', node_type = Task, node_x = 0, node_y = 0, node_vx = 1, node_vy = 2,
              node_radius = 45, node_parentId = None\<rparr>"

definition exNodeC :: CloudNode where
  "exNodeC = \<lparr>node_id = ''c'', node_type = Subtask, node_x = 30, node_y = 0, node_vx = 3, node_vy = 0,
              node_radius = 20, node_parentId = Some ''p''\<rparr>"

definition exNodeB :: CloudNode where
  "exNodeB = \<lparr>node_id = ''b'', node_type = Task, node_x = 40, node_y = 10, node_vx = 1, node_vy = 0,
              node_radius = 45, node_parentId = None\<rparr>"

definition noDrag :: DragState where
  "noDrag = \<lparr>drag_nodeId = None, drag_x = 0, drag_y = 0, drag_prevX = 0, drag_prevY = 0, drag_vx = 0, drag_vy = 0\<rparr>"

definition exMilestone :: CloudNode where
  "exMilestone = \<lparr>node_id = ''m'', node_type = Milestone, node_x = 30, node_y = 0, node_vx = 0, node_vy = 0,
                  node_radius = 80, node_parentId = None\<rparr>"

definition exDrag :: DragState where
  "exDrag = \<lparr>drag_nodeId = Some ''d'', drag_x = 25, drag_y = 0, drag_prevX = 20, drag_prevY = 0,
             drag_vx = 4, drag_vy = 0\<rparr>"

definition exNodeF :: CloudNode where
  "exNodeF = \<lparr>node_id = ''f'', node_type = Task, node_x = 1000, node_y = 0, node_vx = 6, node_vy = 8,
              node_radius = 45, node_parentId = None\<rparr>"

text \<open>
  The speeds the simulator measures. \<open>stateAtTurn ... i\<close> is the loop state (node array,
  \<open>maxVelocity\<close>, random read index) when the outer loop of a free-mode call reaches index \<open>i\<close>.
  \<open>integrated ... i\<close>: node \<open>i\<close> passes every \<open>continue\<close> guard and reaches the force computation.
  \<open>measuredSpeed ds rnd i nodes k\<close> is the value of the constant \<open>speed\<close> of the loop body of node
  \<open>i\<close> started in the state \<open>(nodes, k)\<close>: the speed after attraction, repulsion, drag push and
  jitter, before the cap. \<open>observedSpeed ... i\<close> is that value in the state the call is in at
  the turn of node \<open>i\<close>.
\<close>

definition measuredSpeed :: "DragState \<Rightarrow> (nat \<Rightarrow> real) \<Rightarrow> nat \<Rightarrow> CloudNode list \<Rightarrow> nat \<Rightarrow> real" where
  "measuredSpeed ds rnd i nodes k =
     speedOf (fst (jitterStep rnd k (dragPush ds
       (repulsionLoop ds False (length nodes) i (i + 1)
          (nodes[i := parentAttraction nodes False (nodes ! i)]) ! i))))"

definition stateAtTurn ::
  "DragState \<Rightarrow> (nat \<Rightarrow> real) \<Rightarrow> CloudNode list \<Rightarrow> string option \<Rightarrow> string set option \<Rightarrow> nat \<Rightarrow> simState" where
  "stateAtTurn ds rnd nodes focusedNodeId focusedSubtreeIds i =
     forLoop ds rnd focusedNodeId False focusedSubtreeIds (focusedNodeOf nodes focusedNodeId)
       (parentOfFocusedSubtaskOf (focusedNodeOf nodes focusedNodeId)) i 0 (nodes, 0, 0)"

definition integrated ::
  "DragState \<Rightarrow> CloudNode list \<Rightarrow> string option \<Rightarrow> string set option \<Rightarrow> nat \<Rightarrow> bool" where
  "integrated ds nodes focusedNodeId focusedSubtreeIds i =
     forcesApply ds focusedNodeId False focusedSubtreeIds
       (parentOfFocusedSubtaskOf (focusedNodeOf nodes focusedNodeId)) (nodes ! i)"

definition observedSpeed ::
  "DragState \<Rightarrow> (nat \<Rightarrow> real) \<Rightarrow> CloudNode list \<Rightarrow> string option \<Rightarrow> string set option \<Rightarrow> nat \<Rightarrow> real" where
  "observedSpeed ds rnd nodes focusedNodeId focusedSubtreeIds i =
     (case stateAtTurn ds rnd nodes focusedNodeId focusedSubtreeIds i of
        (nodes', maxVelocity, k) \<Rightarrow> measuredSpeed ds rnd i nodes' k)"

text \<open>
  \<open>allAtRest px py nodes\<close>: every node of the array is at the point \<open>(px, py)\<close> with zero
  velocity, the fully degenerate input: every pair coincides and every child is at its parent's
  position. \<open>exPile\<close> is such an array, at the drag point of \<open>exDrag\<close>, with a child, its parent
  and the dragged node.
\<close>

definition allAtRest :: "real \<Rightarrow> real \<Rightarrow> CloudNode list \<Rightarrow> bool" where
  "allAtRest px py nodes =
     (\<forall>n\<in>set nodes. node_x n = px \<and> node_y n = py \<and> node_vx n = 0 \<and> node_vy n = 0)"

definition exPile :: "CloudNode list" where
  "exPile = [exNodeB\<lparr>node_id := ''u'', node_x := 25, node_y := 0, node_vx := 0\<rparr>,
             exNodeC\<lparr>node_id := ''v'', node_x := 25, node_vx := 0, node_parentId := Some ''u''\<rparr>,
             exNodeB\<lparr>node_id := ''d'', node_x := 25, node_y := 0, node_vx := 0\<rparr>]"

text \<open>Example inputs for the focus layout: a group with five children, and the measured sizes.\<close>

definition exGroup :: CloudNode where
  "exGroup = \<lparr>node_id = ''g'', node_type = Milestone, node_x = 100, node_y = 200, node_vx = 0, node_vy = 0,
              node_radius = 80, node_parentId = None\<rparr>"

definition exKid :: "string \<Rightarrow> CloudNode" where
  "exKid k = \<lparr>node_id = k, node_type = Task, node_x = 0, node_y = 0, node_vx = 2, node_vy = 3,
              node_radius = 45, node_parentId = Some ''g''\<rparr>"

definition exCov :: "string \<Rightarrow> real option" where
  "exCov k = (if k = ''g'' then Some 120 else Some 60)"

definition exKids :: "CloudNode list" where
  "exKids = [exKid ''k1'', exKid ''k2'', exKid ''k3'', exKid ''k4'', exKid ''k5'']"

text \<open>\<open>keepsPos ex n\<close>: if the id of \<open>n\<close> has an earlier position in \<open>ex\<close>, then \<open>n\<close> is at that position.\<close>

definition keepsPos :: "(string \<Rightarrow> (real \<times> real) option) \<Rightarrow> CloudNode \<Rightarrow> bool" where
  "keepsPos ex n = (\<forall>p. ex (node_id n) = Some p \<longrightarrow> (node_x n, node_y n) = p)"

text \<open>Example inputs for the node graph: one milestone with one task, and earlier nodes.\<close>

definition exTree :: "MilestoneE list" where
  "exTree = [\<lparr>milestone_id = ''m'', milestone_x = Some 0, milestone_y = Some 0,
              milestone_tasks = [\<lparr>task_id = ''t'', task_subtasks = []\<rparr>]\<rparr>]"

definition exPrevM :: CloudNode where
  "exPrevM = \<lparr>node_id = ''m'', node_type = Milestone, node_x = 5, node_y = 5, node_vx = 0, node_vy = 0,
              node_radius = 80, node_parentId = None\<rparr>"

definition exPrevT :: CloudNode where
  "exPrevT = \<lparr>node_id = ''t'', node_type = Task, node_x = 7, node_y = 9, node_vx = 1, node_vy = 1,
              node_radius = 45, node_parentId = Some ''m''\<rparr>"

text \<open>
  The placement rules of \<open>createNodes\<close> as functions of the tree. \<open>milestonePosition\<close> is the
  position of milestone \<open>i\<close> of \<open>milestoneCount\<close>: the stored coordinates when both are defined,
  otherwise the circle layout around the centre of the canvas. \<open>milestoneNodeAt\<close> is the node
  pushed for it. \<open>taskAngleOf\<close> is the angle of task \<open>j\<close> of \<open>taskCount\<close> around its milestone,
  and \<open>taskCountOf\<close> the number of tasks of the whole tree.
\<close>

definition milestonePosition :: "real \<Rightarrow> real \<Rightarrow> nat \<Rightarrow> nat \<Rightarrow> MilestoneE \<Rightarrow> real \<times> real" where
  "milestonePosition width height milestoneCount i milestone =
     (case (milestone_x milestone, milestone_y milestone) of
        (Some sx, Some sy) \<Rightarrow> (sx, sy)
      | _ \<Rightarrow>
          if milestoneCount > 1
          then (width / 2 + cos ((real i / real milestoneCount) * pi * 2 - pi / 2) * (min width height * (3 / 10)),
                height / 2 + sin ((real i / real milestoneCount) * pi * 2 - pi / 2) * (min width height * (3 / 10)))
          else (width / 2, height / 2))"

definition milestoneNodeAt :: "real \<Rightarrow> real \<Rightarrow> nat \<Rightarrow> nat \<Rightarrow> MilestoneE \<Rightarrow> CloudNode" where
  "milestoneNodeAt width height milestoneCount i milestone =
     \<lparr>node_id = milestone_id milestone, node_type = Milestone,
      node_x = fst (milestonePosition width height milestoneCount i milestone),
      node_y = snd (milestonePosition width height milestoneCount i milestone),
      node_vx = 0, node_vy = 0, node_radius = MILESTONE_RADIUS, node_parentId = None\<rparr>"

definition taskAngleOf :: "nat \<Rightarrow> nat \<Rightarrow> real" where
  "taskAngleOf taskCount j = (if taskCount > 1 then (real j / real taskCount) * pi * 2 else 0)"

definition taskCountOf :: "MilestoneE list \<Rightarrow> nat" where
  "taskCountOf milestones = length (concat (map milestone_tasks milestones))"

text \<open>
  The outer edge of a puff: the distance of its centre from the node origin plus its radius.
  A puff lies within the coverage boundary when its outer edge does not exceed \<open>coverageR\<close>.
\<close>

definition puffOuterEdge :: "Puff \<Rightarrow> real" where
  "puffOuterEdge p = sqrt (puff_x p * puff_x p + puff_y p * puff_y p) + puff_r p"

text \<open>The puff pushed by one iteration of each loop of \<open>computeMorphPuffs\<close>, as a function of the draws.\<close>

definition childRingPuff :: "Profile \<Rightarrow> real \<Rightarrow> nat \<Rightarrow> nat \<Rightarrow> real \<Rightarrow> real \<Rightarrow> Puff" where
  "childRingPuff pf R n i u1 u2 =
     (let angle = (real i / real n) * pi * 2;
          dist = R * (ringDistFactor pf + (u1 - 1 / 2) * noiseAmp pf);
          pr = max (puffRadiusMin pf)
                 (min (puffRadiusMax pf) (puffRadiusBase pf * (12 / 10) * (70 / 100 + u2 * (60 / 100))))
      in \<lparr>puff_x = cos angle * dist, puff_y = sin angle * dist,
          puff_r = max (puffRadiusMin pf) (min pr (R - dist + pr * (1 / 2)))\<rparr>)"

definition interiorPuff :: "Profile \<Rightarrow> real \<Rightarrow> real \<Rightarrow> real \<Rightarrow> real \<Rightarrow> real \<Rightarrow> Puff" where
  "interiorPuff pf R spread u1 u2 u3 =
     \<lparr>puff_x = cos (u1 * pi * 2) * (R * (sqrt u2 * spread)),
      puff_y = sin (u1 * pi * 2) * (R * (sqrt u2 * spread)),
      puff_r = max (puffRadiusMin pf) (min (puffRadiusMax pf) (puffRadiusBase pf * (60 / 100 + u3 * (80 / 100))))\<rparr>"

definition focusedRingPuff :: "Profile \<Rightarrow> real \<Rightarrow> nat \<Rightarrow> nat \<Rightarrow> real \<Rightarrow> real \<Rightarrow> Puff" where
  "focusedRingPuff pf R m i u1 u2 =
     \<lparr>puff_x = cos ((real i / real m) * pi * 2) * (R * (ringDistFactor pf + (u1 - 1 / 2) * noiseAmp pf)),
      puff_y = sin ((real i / real m) * pi * 2) * (R * (ringDistFactor pf + (u1 - 1 / 2) * noiseAmp pf)),
      puff_r = max (puffRadiusMin pf) (min (puffRadiusMax pf) (puffRadiusBase pf * (70 / 100 + u2 * (60 / 100))))\<rparr>"

definition cornerPuff :: "Profile \<Rightarrow> real \<Rightarrow> real \<Rightarrow> real \<Rightarrow> Puff" where
  "cornerPuff pf R angle u =
     \<lparr>puff_x = cos angle * (R * (50 / 100)), puff_y = sin angle * (R * (50 / 100)),
      puff_r = max (puffRadiusMin pf) (min (puffRadiusMax pf) (puffRadiusBase pf * (85 / 100 + u * (30 / 100))))\<rparr>"

text \<open>
  The base puffs of a cloud are made once, by the constructor: one central puff and one puff
  per bump, the number of bumps being fixed by the kind of the node. No method assigns
  \<open>basePuffs\<close> afterwards.
\<close>

definition cloudInv :: "Cloud \<Rightarrow> bool" where
  "cloudInv c = (length (basePuffs c) = 1 + bumpCountOf (node_type (cloud_node c)))"

text \<open>Example input: the cloud of the subtask node \<open>c\<close>, as a child of the focused node.\<close>

definition exChildCloud :: Cloud where
  "exChildCloud = (newCloud exNodeC)\<lparr>isChildOfFocusedNode := True\<rparr>"

text \<open>Example input: the cloud of the task node \<open>p\<close>, as the constructor makes it.\<close>

definition exFocusedCloud :: Cloud where
  "exFocusedCloud = newCloud exNodeP"

text \<open>
  Notions for the morph: a fresh puff, the current list brought to the length of the target
  list the way \<open>update\<close> does it (fresh puffs appended, excess puffs dropped), the distance of
  a puff from its target (the largest of the three coordinate differences), one interpolation
  step of a puff, and the settled state: every puff within the threshold \<open>0.3\<close> of its target.
\<close>

definition zeroPuff :: Puff where
  "zeroPuff = \<lparr>puff_x = 0, puff_y = 0, puff_r = 0\<rparr>"

definition alignPuffs :: "nat \<Rightarrow> Puff list \<Rightarrow> Puff list" where
  "alignPuffs n cur = take n (cur @ replicate (n - length cur) zeroPuff)"

definition puffDist :: "Puff \<Rightarrow> Puff \<Rightarrow> real" where
  "puffDist p t = max \<bar>puff_x p - puff_x t\<bar> (max \<bar>puff_y p - puff_y t\<bar> \<bar>puff_r p - puff_r t\<bar>)"

definition stepPuff :: "real \<Rightarrow> Puff \<Rightarrow> Puff \<Rightarrow> Puff" where
  "stepPuff deltaTime p t = (if puffFar p t then movePuff deltaTime p t else p)"

definition settled :: "Cloud \<Rightarrow> bool" where
  "settled c = (length (currentPuffs c) = length (targetPuffs c) \<and>
                (\<forall>i<length (targetPuffs c). \<not> puffFar (currentPuffs c ! i) (targetPuffs c ! i)))"

text \<open>\<open>withinDist D cur tgt\<close>: the lists have the same length and every puff is within \<open>D\<close> of its target.\<close>

definition withinDist :: "real \<Rightarrow> Puff list \<Rightarrow> Puff list \<Rightarrow> bool" where
  "withinDist D cur tgt = (length cur = length tgt \<and> (\<forall>i<length tgt. puffDist (cur ! i) (tgt ! i) \<le> D))"

text \<open>Example input: a cloud with one puff that is one unit away from its target.\<close>

definition exMorphCloud :: Cloud where
  "exMorphCloud = \<lparr>cloud_node = exNodeC, isChildOfFocusedNode = False,
                    basePuffs = [\<lparr>puff_x = 0, puff_y = 0, puff_r = 0\<rparr>],
                    targetPuffs = [\<lparr>puff_x = 0, puff_y = 0, puff_r = 0\<rparr>],
                    currentPuffs = [\<lparr>puff_x = 1, puff_y = 0, puff_r = 0\<rparr>],
                    morphComplete = False, coverageR = 0, requiredCoverageR = 0, hitArea = None\<rparr>"

section \<open>Proofs\<close>

declare repulsionLoop.simps [simp del]

declare forLoop.simps [simp del]

lemma velChange_refl [simp]: "velChange a a"
  by (simp add: velChange_def)

lemma velChange_trans: "velChange a b \<Longrightarrow> velChange b c \<Longrightarrow> velChange a c"
  by (simp add: velChange_def)

lemma velChange_upd [simp]: "velChange a (a\<lparr>node_vx := u, node_vy := v\<rparr>)"
  by (simp add: velChange_def)

lemma velChange_fields:
  assumes "velChange a b"
  shows "node_id b = node_id a \<and> node_type b = node_type a \<and> node_x b = node_x a \<and>
     node_y b = node_y a \<and> node_radius b = node_radius a \<and> node_parentId b = node_parentId a"
proof -
  have e: "b\<lparr>node_vx := 0, node_vy := 0\<rparr> = a\<lparr>node_vx := 0, node_vy := 0\<rparr>"
    using assms by (simp only: velChange_def)
  have "node_id (b\<lparr>node_vx := 0, node_vy := 0\<rparr>) = node_id (a\<lparr>node_vx := 0, node_vy := 0\<rparr>)"
       "node_type (b\<lparr>node_vx := 0, node_vy := 0\<rparr>) = node_type (a\<lparr>node_vx := 0, node_vy := 0\<rparr>)"
       "node_x (b\<lparr>node_vx := 0, node_vy := 0\<rparr>) = node_x (a\<lparr>node_vx := 0, node_vy := 0\<rparr>)"
       "node_y (b\<lparr>node_vx := 0, node_vy := 0\<rparr>) = node_y (a\<lparr>node_vx := 0, node_vy := 0\<rparr>)"
       "node_radius (b\<lparr>node_vx := 0, node_vy := 0\<rparr>) = node_radius (a\<lparr>node_vx := 0, node_vy := 0\<rparr>)"
       "node_parentId (b\<lparr>node_vx := 0, node_vy := 0\<rparr>) = node_parentId (a\<lparr>node_vx := 0, node_vy := 0\<rparr>)"
    by (simp_all only: e)
  then show ?thesis by simp
qed

lemma repulsePair_frame:
  "repulsePair ds d a b = (a', b') \<Longrightarrow> velChange a a' \<and> velChange b b'"
  by (auto simp: repulsePair_def Let_def split: if_splits)

lemma repulsionLoop_length [simp]:
  "length (repulsionLoop ds d n i j nodes) = length nodes"
proof (induction ds d n i j nodes rule: repulsionLoop.induct)
  case (1 ds d n i j nodes)
  show ?case
  proof (cases "j < n")
    case False
    then show ?thesis by (subst repulsionLoop.simps) simp
  next
    case True
    obtain a' b' where ab: "repulsePair ds d (nodes ! i) (nodes ! j) = (a', b')"
      by (cases "repulsePair ds d (nodes ! i) (nodes ! j)")
    show ?thesis
      using True ab 1 [OF True refl ab [symmetric]] by (subst repulsionLoop.simps) simp
  qed
qed

lemma repulsionLoop_frame:
  "k < length nodes \<Longrightarrow> velChange (nodes ! k) (repulsionLoop ds d n i j nodes ! k)"
proof (induction ds d n i j nodes rule: repulsionLoop.induct)
  case (1 ds d n i j nodes)
  show ?case
  proof (cases "j < n")
    case False
    then show ?thesis by (subst repulsionLoop.simps) simp
  next
    case True
    obtain a' b' where ab: "repulsePair ds d (nodes ! i) (nodes ! j) = (a', b')"
      by (cases "repulsePair ds d (nodes ! i) (nodes ! j)")
    let ?nodes' = "nodes[i := a', j := b']"
    have fr: "velChange (nodes ! i) a'" "velChange (nodes ! j) b'"
      using repulsePair_frame [OF ab] by auto
    have step: "velChange (nodes ! k) (?nodes' ! k)"
      using fr 1(2) by (cases "k = j"; cases "k = i") simp_all
    have "velChange (?nodes' ! k) (repulsionLoop ds d n i (j + 1) ?nodes' ! k)"
      using 1(1) [OF True refl ab [symmetric]] 1(2) by simp
    then have "velChange (nodes ! k) (repulsionLoop ds d n i (j + 1) ?nodes' ! k)"
      using step velChange_trans by blast
    then show ?thesis
      using True ab by (subst repulsionLoop.simps) simp
  qed
qed

lemma repulsionLoop_below:
  "k < j \<Longrightarrow> k \<noteq> i \<Longrightarrow> repulsionLoop ds d n i j nodes ! k = nodes ! k"
proof (induction ds d n i j nodes rule: repulsionLoop.induct)
  case (1 ds d n i j nodes)
  show ?case
  proof (cases "j < n")
    case False
    then show ?thesis by (subst repulsionLoop.simps) simp
  next
    case True
    obtain a' b' where ab: "repulsePair ds d (nodes ! i) (nodes ! j) = (a', b')"
      by (cases "repulsePair ds d (nodes ! i) (nodes ! j)")
    have "repulsionLoop ds d n i (j + 1) (nodes[i := a', j := b']) ! k = (nodes[i := a', j := b']) ! k"
      using 1(1) [OF True refl ab [symmetric]] 1(2,3) by simp
    then show ?thesis
      using True ab 1(2,3) by (subst repulsionLoop.simps) simp
  qed
qed

lemma velChange_identEq: "velChange a b \<Longrightarrow> identEq a b"
  using velChange_fields [of a b] by (simp add: identEq_def)

lemma identEq_refl [simp]: "identEq a a"
  by (simp add: identEq_def)

lemma identEq_trans: "identEq a b \<Longrightarrow> identEq b c \<Longrightarrow> identEq a c"
  by (simp add: identEq_def)

lemma parentAttraction_velChange [simp]: "velChange a (parentAttraction nodes fm a)"
  by (simp add: parentAttraction_def Let_def split: option.splits)

lemma dragPush_velChange [simp]: "velChange a (dragPush ds a)"
  by (simp add: dragPush_def Let_def split: option.splits)

lemma jitterStep_velChange [simp]: "velChange a (fst (jitterStep rnd k a))"
  by (simp add: jitterStep_def Let_def)

lemma capVelocity_velChange [simp]: "velChange a (capVelocity a)"
  by (simp add: capVelocity_def Let_def)

lemma integrate_identEq [simp]: "identEq a (integrate a)"
  by (simp add: integrate_def identEq_def)

lemma hyp_scale: "sqrt ((c * a) * (c * a) + (c * b) * (c * b)) = \<bar>c\<bar> * sqrt (a * a + b * b)"
proof -
  have "(c * a) * (c * a) + (c * b) * (c * b) = (c * c) * (a * a + b * b)"
    by (simp add: algebra_simps)
  then show ?thesis
    by (simp add: real_sqrt_mult)
qed

lemma speedOf_nonneg [simp]: "0 \<le> speedOf a"
  by (simp add: speedOf_def)

lemma speedOf_capVelocity: "speedOf (capVelocity a) \<le> speedOf a"
proof (cases "speedOf a > MAX_VELOCITY")
  case False
  then show ?thesis by (simp add: capVelocity_def Let_def)
next
  case True
  let ?s = "speedOf a"
  have spos: "?s > 0" using True by (simp add: MAX_VELOCITY_def)
  have "speedOf (capVelocity a) =
          sqrt ((MAX_VELOCITY / ?s * node_vx a) * (MAX_VELOCITY / ?s * node_vx a) +
                (MAX_VELOCITY / ?s * node_vy a) * (MAX_VELOCITY / ?s * node_vy a))"
    using True by (simp add: capVelocity_def Let_def speedOf_def mult.commute)
  also have "\<dots> = \<bar>MAX_VELOCITY / ?s\<bar> * ?s"
    unfolding hyp_scale by (simp add: speedOf_def)
  also have "\<dots> = MAX_VELOCITY"
    using spos by (simp add: MAX_VELOCITY_def)
  finally show ?thesis using True by simp
qed

lemma speedOf_integrate: "speedOf (integrate a) \<le> speedOf a"
proof -
  have "speedOf (integrate a) =
          sqrt ((DAMPING * node_vx a) * (DAMPING * node_vx a) + (DAMPING * node_vy a) * (DAMPING * node_vy a))"
    by (simp add: integrate_def speedOf_def mult.commute)
  also have "\<dots> = \<bar>DAMPING\<bar> * speedOf a"
    unfolding hyp_scale by (simp add: speedOf_def)
  also have "\<dots> \<le> 1 * speedOf a"
    by (rule mult_right_mono) (simp_all add: DAMPING_def)
  finally show ?thesis by simp
qed

lemma forceStep_frame:
  assumes "forceStep ds rnd fm d i (nodes, m, k) = (nodes', m', k')"
  shows "stepFrame i nodes nodes'"
proof -
  define nodes1 where "nodes1 = nodes[i := parentAttraction nodes fm (nodes ! i)]"
  define nodes2 where "nodes2 = repulsionLoop ds d (length nodes) i (i + 1) nodes1"
  define a5 where "a5 = capVelocity (fst (jitterStep rnd k (dragPush ds (nodes2 ! i))))"
  have res: "nodes' = nodes2[i := integrate a5]"
    using assms by (simp add: forceStep_def Let_def nodes1_def nodes2_def a5_def split: prod.splits)
  have len1: "length nodes1 = length nodes" by (simp add: nodes1_def)
  have len2: "length nodes2 = length nodes" by (simp add: nodes2_def len1)
  have v1: "velChange (nodes ! j) (nodes1 ! j)" if "j < length nodes" for j
    using that by (cases "j = i") (simp_all add: nodes1_def)
  have v2: "velChange (nodes ! j) (nodes2 ! j)" if "j < length nodes" for j
    using v1 [OF that] repulsionLoop_frame [of j nodes1 ds d "length nodes" i "i + 1"] that len1
    unfolding nodes2_def by (auto intro: velChange_trans)
  have below: "nodes2 ! j = nodes ! j" if "j < i" for j
    using that repulsionLoop_below [of j "i + 1" i ds d "length nodes" nodes1]
    by (simp add: nodes2_def nodes1_def)
  have "velChange (nodes2 ! i) a5"
    unfolding a5_def
    by (meson velChange_trans dragPush_velChange jitterStep_velChange capVelocity_velChange)
  then have "identEq (nodes2 ! i) (integrate a5)"
    by (meson identEq_trans integrate_identEq velChange_identEq)
  then have idi: "identEq (nodes ! i) (integrate a5)" if "i < length nodes"
    using v2 [OF that] by (meson identEq_trans velChange_identEq)
  show ?thesis
    unfolding stepFrame_def res using len2 v2 below idi by (auto simp: nth_list_update)
qed

lemma forceStep_speed:
  assumes "forceStep ds rnd fm d i (nodes, m, k) = (nodes', m', k')" and "i < length nodes"
  shows "m \<le> m' \<and> speedOf (nodes' ! i) \<le> m'"
proof -
  define nodes1 where "nodes1 = nodes[i := parentAttraction nodes fm (nodes ! i)]"
  define nodes2 where "nodes2 = repulsionLoop ds d (length nodes) i (i + 1) nodes1"
  define a4 where "a4 = fst (jitterStep rnd k (dragPush ds (nodes2 ! i)))"
  have res: "nodes' = nodes2[i := integrate (capVelocity a4)]" and m': "m' = max m (speedOf a4)"
    using assms by (simp_all add: forceStep_def Let_def nodes1_def nodes2_def a4_def split: prod.splits)
  have len2: "length nodes2 = length nodes" by (simp add: nodes2_def nodes1_def)
  have "speedOf (nodes' ! i) = speedOf (integrate (capVelocity a4))"
    using assms(2) len2 by (simp add: res)
  also have "\<dots> \<le> speedOf a4"
    using speedOf_integrate [of "capVelocity a4"] speedOf_capVelocity [of a4] by linarith
  finally show ?thesis by (simp add: m')
qed

lemma identEq_guards:
  assumes "identEq a b"
  shows "isDraggedNode ds b = isDraggedNode ds a"
    and "inSubtree ids b = inSubtree ids a"
    and "isFocusedNode fid b = isFocusedNode fid a"
    and "isParentOfFocusedSubtask pfs b = isParentOfFocusedSubtask pfs a"
    and "isChildOfFocused fnode b = isChildOfFocused fnode a"
    and "node_type b = node_type a"
  using assms
  by (simp_all add: identEq_def isDraggedNode_def inSubtree_def isFocusedNode_def
        isParentOfFocusedSubtask_def isChildOfFocused_def split: option.splits)

lemma identEq_locked: "identEq a b \<Longrightarrow> lockedNode ds fid fm ids pfs b = lockedNode ds fid fm ids pfs a"
  by (simp add: lockedNode_def identEq_guards)

lemma stepNode_force:
  "forcesApply ds fid fm ids pfs (nodes ! i) \<Longrightarrow>
   stepNode ds rnd fid fm ids fnode pfs i (nodes, m, k) = forceStep ds rnd fm False i (nodes, m, k)"
  by (simp add: stepNode_def Let_def forcesApply_def)

lemma stepNode_quiet:
  "\<not> forcesApply ds fid fm ids pfs (nodes ! i) \<Longrightarrow>
   stepNode ds rnd fid fm ids fnode pfs i (nodes, m, k) =
     (nodes[i := quietNode ds fid fm ids fnode pfs (nodes ! i)], m, k)"
  unfolding forcesApply_def
  by (cases "isDraggedNode ds (nodes ! i)"; cases "inSubtree ids (nodes ! i)"; cases fm;
      cases "isFocusedNode fid (nodes ! i)"; cases "isParentOfFocusedSubtask pfs (nodes ! i)";
      cases "node_type (nodes ! i) = Milestone")
     (simp_all add: stepNode_def Let_def quietNode_def focusModeNode_def)

lemma quietNode_cases:
  "quietNode ds fid fm ids fnode pfs a = a\<lparr>node_x := drag_x ds, node_y := drag_y ds, node_vx := 0, node_vy := 0\<rparr>
   \<or> velChange a (quietNode ds fid fm ids fnode pfs a)"
  by (simp add: quietNode_def focusModeNode_def)

lemma stepFrame_upd_vel:
  "velChange (nodes ! i) b \<Longrightarrow> stepFrame i nodes (nodes[i := b])"
  by (auto simp: stepFrame_def nth_list_update velChange_identEq)

lemma stepFrame_upd_pin:
  "stepFrame i nodes (nodes[i := (nodes ! i)\<lparr>node_x := p, node_y := q, node_vx := u, node_vy := v\<rparr>])"
  by (auto simp: stepFrame_def nth_list_update identEq_def)

lemma stepNode_frame:
  assumes "stepNode ds rnd fid fm ids fnode pfs i (nodes, m, k) = (nodes', m', k')"
  shows "stepFrame i nodes nodes'"
proof (cases "forcesApply ds fid fm ids pfs (nodes ! i)")
  case True
  then have "forceStep ds rnd fm False i (nodes, m, k) = (nodes', m', k')"
    using assms by (simp add: stepNode_force)
  then show ?thesis by (rule forceStep_frame)
next
  case False
  then have n': "nodes' = nodes[i := quietNode ds fid fm ids fnode pfs (nodes ! i)]"
    using assms by (simp add: stepNode_quiet)
  show ?thesis
    using quietNode_cases [of ds fid fm ids fnode pfs "nodes ! i"]
    unfolding n' by (metis stepFrame_upd_vel stepFrame_upd_pin)
qed

lemma stepNode_locked:
  assumes "i < length nodes" and "lockedNode ds fid fm ids pfs (nodes ! i)"
  shows "fst (stepNode ds rnd fid fm ids fnode pfs i (nodes, m, k)) ! i = (nodes ! i)\<lparr>node_vx := 0, node_vy := 0\<rparr>"
proof -
  have nf: "\<not> forcesApply ds fid fm ids pfs (nodes ! i)"
    using assms(2) by (auto simp: lockedNode_def forcesApply_def)
  have "quietNode ds fid fm ids fnode pfs (nodes ! i) = (nodes ! i)\<lparr>node_vx := 0, node_vy := 0\<rparr>"
    using assms(2) by (auto simp: lockedNode_def quietNode_def focusModeNode_def)
  then show ?thesis
    using assms(1) by (simp add: stepNode_quiet [OF nf])
qed

lemma stepNode_dragged:
  assumes "i < length nodes" and "isDraggedNode ds (nodes ! i)"
  shows "fst (stepNode ds rnd fid fm ids fnode pfs i (nodes, m, k)) ! i =
           (nodes ! i)\<lparr>node_x := drag_x ds, node_y := drag_y ds, node_vx := 0, node_vy := 0\<rparr>"
proof -
  have nf: "\<not> forcesApply ds fid fm ids pfs (nodes ! i)"
    using assms(2) by (simp add: forcesApply_def)
  have "quietNode ds fid fm ids fnode pfs (nodes ! i) =
          (nodes ! i)\<lparr>node_x := drag_x ds, node_y := drag_y ds, node_vx := 0, node_vy := 0\<rparr>"
    using assms(2) by (simp add: quietNode_def focusModeNode_def)
  then show ?thesis
    using assms(1) by (simp add: stepNode_quiet [OF nf])
qed

lemma stepNode_focus:
  "stepNode ds rnd fid True ids fnode pfs i (nodes, m, k) =
     (nodes[i := focusModeNode ds fid ids fnode pfs (nodes ! i)], m, k)"
proof -
  have nf: "\<not> forcesApply ds fid True ids pfs (nodes ! i)"
    by (simp add: forcesApply_def)
  show ?thesis
    by (simp add: stepNode_quiet [OF nf] quietNode_def)
qed

lemma speedOf_zero [simp]: "speedOf (a\<lparr>node_vx := 0, node_vy := 0\<rparr>) = 0"
  by (simp add: speedOf_def)

lemma speedOf_pin [simp]: "speedOf (a\<lparr>node_x := p, node_y := q, node_vx := 0, node_vy := 0\<rparr>) = 0"
  by (simp add: speedOf_def)

lemma stepNode_speed:
  assumes "stepNode ds rnd fid False ids fnode pfs i (nodes, m, k) = (nodes', m', k')"
    and "i < length nodes" and "0 \<le> m"
  shows "m \<le> m' \<and> speedOf (nodes' ! i) \<le> m'"
proof (cases "forcesApply ds fid False ids pfs (nodes ! i)")
  case True
  then have "forceStep ds rnd False False i (nodes, m, k) = (nodes', m', k')"
    using assms(1) by (simp add: stepNode_force)
  then show ?thesis using assms(2) by (rule forceStep_speed)
next
  case False
  have "speedOf (quietNode ds fid False ids fnode pfs (nodes ! i)) = 0"
    by (simp add: quietNode_def)
  then show ?thesis
    using assms by (auto simp: stepNode_quiet [OF False])
qed

lemma forLoop_step:
  "i < n \<Longrightarrow> forLoop ds rnd fid fm ids fnode pfs n i st =
     forLoop ds rnd fid fm ids fnode pfs n (i + 1) (stepNode ds rnd fid fm ids fnode pfs i st)"
  by (subst forLoop.simps) simp

lemma forLoop_done:
  "\<not> i < n \<Longrightarrow> forLoop ds rnd fid fm ids fnode pfs n i st = st"
  by (subst forLoop.simps) simp

lemma forLoop_length:
  "length (fst (forLoop ds rnd fid fm ids fnode pfs n i st)) = length (fst st)"
proof (induction ds rnd fid fm ids fnode pfs n i st rule: forLoop.induct)
  case (1 ds rnd fid fm ids fnode pfs n i st)
  show ?case
  proof (cases "i < n")
    case False
    then show ?thesis by (simp add: forLoop_done)
  next
    case True
    obtain nodes m k where st: "st = (nodes, m, k)" by (cases st)
    obtain nodes' m' k' where s: "stepNode ds rnd fid fm ids fnode pfs i (nodes, m, k) = (nodes', m', k')"
      by (cases "stepNode ds rnd fid fm ids fnode pfs i (nodes, m, k)")
    have "length nodes' = length nodes"
      using stepNode_frame [OF s] by (simp add: stepFrame_def)
    then show ?thesis
      using 1 [OF True] s st True by (simp add: forLoop_step)
  qed
qed

lemma forLoop_below:
  "j < i \<Longrightarrow> fst (forLoop ds rnd fid fm ids fnode pfs n i st) ! j = fst st ! j"
proof (induction ds rnd fid fm ids fnode pfs n i st rule: forLoop.induct)
  case (1 ds rnd fid fm ids fnode pfs n i st)
  show ?case
  proof (cases "i < n")
    case False
    then show ?thesis by (simp add: forLoop_done)
  next
    case True
    obtain nodes m k where st: "st = (nodes, m, k)" by (cases st)
    obtain nodes' m' k' where s: "stepNode ds rnd fid fm ids fnode pfs i (nodes, m, k) = (nodes', m', k')"
      by (cases "stepNode ds rnd fid fm ids fnode pfs i (nodes, m, k)")
    have "nodes' ! j = nodes ! j"
      using stepNode_frame [OF s] 1(2) by (simp add: stepFrame_def)
    then show ?thesis
      using 1(1) [OF True] 1(2) s st True by (simp add: forLoop_step)
  qed
qed

lemma forLoop_turn:
  assumes "length nodes = n" and "i \<le> k" and "k < n"
  shows "\<exists>nodesK mK rK. length nodesK = n \<and> velChange (nodes ! k) (nodesK ! k) \<and>
           fst (forLoop ds rnd fid fm ids fnode pfs n i (nodes, m, r)) ! k =
           fst (stepNode ds rnd fid fm ids fnode pfs k (nodesK, mK, rK)) ! k"
  using assms
proof (induction ds rnd fid fm ids fnode pfs n i "(nodes, m, r)" arbitrary: nodes m r rule: forLoop.induct)
  case (1 ds rnd fid fm ids fnode pfs n i)
  obtain nodes' m' r' where s: "stepNode ds rnd fid fm ids fnode pfs i (nodes, m, r) = (nodes', m', r')"
    by (cases "stepNode ds rnd fid fm ids fnode pfs i (nodes, m, r)")
  have fr: "stepFrame i nodes nodes'" by (rule stepNode_frame [OF s])
  have lt: "i < n" using 1(3,4) by simp
  have unf: "forLoop ds rnd fid fm ids fnode pfs n i (nodes, m, r) =
             forLoop ds rnd fid fm ids fnode pfs n (i + 1) (nodes', m', r')"
    using lt s by (simp add: forLoop_step)
  show ?case
  proof (cases "k = i")
    case True
    have "fst (forLoop ds rnd fid fm ids fnode pfs n (i + 1) (nodes', m', r')) ! k = nodes' ! k"
      using forLoop_below [of k "i + 1"] True by simp
    then show ?thesis
      using True s unf 1(2) by (intro exI [of _ nodes] exI [of _ m] exI [of _ r]) simp
  next
    case False
    then have le: "i + 1 \<le> k" using 1(3) by auto
    have len: "length nodes' = n" using fr 1(2) by (simp add: stepFrame_def)
    obtain nodesK mK rK where K: "length nodesK = n" "velChange (nodes' ! k) (nodesK ! k)"
        "fst (forLoop ds rnd fid fm ids fnode pfs n (i + 1) (nodes', m', r')) ! k =
         fst (stepNode ds rnd fid fm ids fnode pfs k (nodesK, mK, rK)) ! k"
      using 1(1) [OF lt s len le 1(4)] by blast
    have "velChange (nodes ! k) (nodes' ! k)"
      using fr False 1(2,4) by (simp add: stepFrame_def)
    then have "velChange (nodes ! k) (nodesK ! k)"
      using K(2) velChange_trans by blast
    then show ?thesis using K unf by auto
  qed
qed

lemma velChange_zero:
  "velChange a b \<Longrightarrow> b\<lparr>node_vx := 0, node_vy := 0\<rparr> = a\<lparr>node_vx := 0, node_vy := 0\<rparr>"
  by (simp add: velChange_def)

lemma velChange_pin:
  "velChange a b \<Longrightarrow> b\<lparr>node_x := p, node_y := q, node_vx := 0, node_vy := 0\<rparr> =
                       a\<lparr>node_x := p, node_y := q, node_vx := 0, node_vy := 0\<rparr>"
proof -
  assume "velChange a b"
  then have e: "b\<lparr>node_vx := 0, node_vy := 0\<rparr> = a\<lparr>node_vx := 0, node_vy := 0\<rparr>"
    by (simp only: velChange_def)
  have "b\<lparr>node_x := p, node_y := q, node_vx := 0, node_vy := 0\<rparr> =
        (b\<lparr>node_vx := 0, node_vy := 0\<rparr>)\<lparr>node_x := p, node_y := q\<rparr>"
    by simp
  also have "\<dots> = (a\<lparr>node_vx := 0, node_vy := 0\<rparr>)\<lparr>node_x := p, node_y := q\<rparr>"
    by (simp only: e)
  also have "\<dots> = a\<lparr>node_x := p, node_y := q, node_vx := 0, node_vy := 0\<rparr>"
    by simp
  finally show ?thesis .
qed

lemma forLoop_locked:
  assumes "length nodes = n" and "k < n" and "lockedNode ds fid fm ids pfs (nodes ! k)"
  shows "fst (forLoop ds rnd fid fm ids fnode pfs n 0 (nodes, m, r)) ! k = (nodes ! k)\<lparr>node_vx := 0, node_vy := 0\<rparr>"
proof -
  obtain nodesK mK rK where K: "length nodesK = n" "velChange (nodes ! k) (nodesK ! k)"
      "fst (forLoop ds rnd fid fm ids fnode pfs n 0 (nodes, m, r)) ! k =
       fst (stepNode ds rnd fid fm ids fnode pfs k (nodesK, mK, rK)) ! k"
    using forLoop_turn [OF assms(1) _ assms(2), of 0] by blast
  have "lockedNode ds fid fm ids pfs (nodesK ! k)"
    using assms(3) identEq_locked [OF velChange_identEq [OF K(2)]] by simp
  then have "fst (stepNode ds rnd fid fm ids fnode pfs k (nodesK, mK, rK)) ! k = (nodesK ! k)\<lparr>node_vx := 0, node_vy := 0\<rparr>"
    using stepNode_locked K(1) assms(2) by simp
  then show ?thesis using K(3) velChange_zero [OF K(2)] by simp
qed

lemma forLoop_dragged:
  assumes "length nodes = n" and "k < n" and "isDraggedNode ds (nodes ! k)"
  shows "fst (forLoop ds rnd fid fm ids fnode pfs n 0 (nodes, m, r)) ! k =
           (nodes ! k)\<lparr>node_x := drag_x ds, node_y := drag_y ds, node_vx := 0, node_vy := 0\<rparr>"
proof -
  obtain nodesK mK rK where K: "length nodesK = n" "velChange (nodes ! k) (nodesK ! k)"
      "fst (forLoop ds rnd fid fm ids fnode pfs n 0 (nodes, m, r)) ! k =
       fst (stepNode ds rnd fid fm ids fnode pfs k (nodesK, mK, rK)) ! k"
    using forLoop_turn [OF assms(1) _ assms(2), of 0] by blast
  have "isDraggedNode ds (nodesK ! k)"
    using assms(3) identEq_guards(1) [OF velChange_identEq [OF K(2)]] by simp
  then have "fst (stepNode ds rnd fid fm ids fnode pfs k (nodesK, mK, rK)) ! k =
      (nodesK ! k)\<lparr>node_x := drag_x ds, node_y := drag_y ds, node_vx := 0, node_vy := 0\<rparr>"
    using stepNode_dragged K(1) assms(2) by simp
  then show ?thesis using K(3) velChange_pin [OF K(2)] by simp
qed

lemma forLoop_focus:
  "length nodes = n \<Longrightarrow> i \<le> n \<Longrightarrow>
   forLoop ds rnd fid True ids fnode pfs n i (nodes, m, r) =
     (take i nodes @ map (focusModeNode ds fid ids fnode pfs) (drop i nodes), m, r)"
proof (induction ds rnd fid "True" ids fnode pfs n i "(nodes, m, r)" arbitrary: nodes rule: forLoop.induct)
  case (1 ds rnd fid ids fnode pfs n i)
  show ?case
  proof (cases "i < n")
    case False
    then show ?thesis using 1(2,3) by (simp add: forLoop_done)
  next
    case True
    let ?f = "focusModeNode ds fid ids fnode pfs"
    let ?nodes' = "nodes[i := ?f (nodes ! i)]"
    have s: "stepNode ds rnd fid True ids fnode pfs i (nodes, m, r) = (?nodes', m, r)"
      by (rule stepNode_focus)
    have "forLoop ds rnd fid True ids fnode pfs n (i + 1) (?nodes', m, r) =
            (take (i + 1) ?nodes' @ map ?f (drop (i + 1) ?nodes'), m, r)"
      using 1(1) [OF True s] 1(2) True by simp
    moreover have "take (i + 1) ?nodes' @ map ?f (drop (i + 1) ?nodes') = take i nodes @ map ?f (drop i nodes)"
      using True 1(2) by (simp add: take_Suc_conv_app_nth Cons_nth_drop_Suc [symmetric])
    ultimately show ?thesis
      using True s by (simp add: forLoop_step)
  qed
qed

lemma forLoop_speed:
  assumes "length nodes = n" and "0 \<le> m" and "\<forall>j<i. j < n \<longrightarrow> speedOf (nodes ! j) \<le> m"
    and "forLoop ds rnd fid False ids fnode pfs n i (nodes, m, r) = (nodes', m', r')"
  shows "0 \<le> m' \<and> (\<forall>j<n. speedOf (nodes' ! j) \<le> m')"
  using assms
proof (induction ds rnd fid "False" ids fnode pfs n i "(nodes, m, r)" arbitrary: nodes m r rule: forLoop.induct)
  case (1 ds rnd fid ids fnode pfs n i)
  show ?case
  proof (cases "i < n")
    case False
    then show ?thesis using 1(2-5) by (simp add: forLoop_done)
  next
    case True
    obtain nodes1 m1 r1 where s: "stepNode ds rnd fid False ids fnode pfs i (nodes, m, r) = (nodes1, m1, r1)"
      by (cases "stepNode ds rnd fid False ids fnode pfs i (nodes, m, r)")
    have fr: "stepFrame i nodes nodes1" by (rule stepNode_frame [OF s])
    have len: "length nodes1 = n" using fr 1(2) by (simp add: stepFrame_def)
    have sp: "m \<le> m1" "speedOf (nodes1 ! i) \<le> m1"
      using stepNode_speed [OF s] True 1(2,3) by auto
    have inv: "\<forall>j<i + 1. j < n \<longrightarrow> speedOf (nodes1 ! j) \<le> m1"
    proof (intro allI impI)
      fix j assume j: "j < i + 1" "j < n"
      show "speedOf (nodes1 ! j) \<le> m1"
      proof (cases "j = i")
        case True
        then show ?thesis using sp(2) by simp
      next
        case False
        then have "j < i" using j by simp
        then have "nodes1 ! j = nodes ! j" using fr by (simp add: stepFrame_def)
        then show ?thesis using 1(4) \<open>j < i\<close> j(2) sp(1) by fastforce
      qed
    qed
    have m1: "0 \<le> m1" using sp(1) 1(3) by simp
    have "forLoop ds rnd fid False ids fnode pfs n (i + 1) (nodes1, m1, r1) = (nodes', m', r')"
      using 1(5) True s by (simp add: forLoop_step)
    then show ?thesis
      using 1(1) [OF True s len m1 inv] by simp
  qed
qed

lemma applyForces_fst:
  "fst (applyForces ds rnd nodes fid fm ids) =
     fst (forLoop ds rnd fid fm ids (focusedNodeOf nodes fid)
            (parentOfFocusedSubtaskOf (focusedNodeOf nodes fid)) (length nodes) 0 (nodes, 0, 0))"
  by (simp add: applyForces_def Let_def split: prod.splits)

lemma applyForces_snd:
  "snd (applyForces ds rnd nodes fid fm ids) =
     fst (snd (forLoop ds rnd fid fm ids (focusedNodeOf nodes fid)
            (parentOfFocusedSubtaskOf (focusedNodeOf nodes fid)) (length nodes) 0 (nodes, 0, 0)))"
  by (simp add: applyForces_def Let_def split: prod.splits)

lemma applyForces_length: "length (fst (applyForces ds rnd nodes fid fm ids)) = length nodes"
  by (simp add: applyForces_fst forLoop_length)

lemma applyForces_locked:
  assumes "k < length nodes"
    and "lockedNode ds fid fm ids (parentOfFocusedSubtaskOf (focusedNodeOf nodes fid)) (nodes ! k)"
  shows "fst (applyForces ds rnd nodes fid fm ids) ! k = (nodes ! k)\<lparr>node_vx := 0, node_vy := 0\<rparr>"
  unfolding applyForces_fst using assms by (intro forLoop_locked) simp_all

lemma applyForces_dragged:
  assumes "k < length nodes" and "isDraggedNode ds (nodes ! k)"
  shows "fst (applyForces ds rnd nodes fid fm ids) ! k =
           (nodes ! k)\<lparr>node_x := drag_x ds, node_y := drag_y ds, node_vx := 0, node_vy := 0\<rparr>"
  unfolding applyForces_fst using assms by (intro forLoop_dragged) simp_all

lemma applyForces_focus:
  "applyForces ds rnd nodes fid True ids =
     (map (focusModeNode ds fid ids (focusedNodeOf nodes fid)
             (parentOfFocusedSubtaskOf (focusedNodeOf nodes fid))) nodes, 0)"
  by (simp add: applyForces_def Let_def forLoop_focus)

lemma applyForces_speed:
  assumes "applyForces ds rnd nodes fid False ids = (nodes', mv)"
  shows "0 \<le> mv \<and> (\<forall>k<length nodes. speedOf (nodes' ! k) \<le> mv)"
proof -
  let ?fn = "focusedNodeOf nodes fid"
  obtain ns m r where f: "forLoop ds rnd fid False ids ?fn (parentOfFocusedSubtaskOf ?fn) (length nodes) 0 (nodes, 0, 0) = (ns, m, r)"
    by (metis prod_cases3)
  have "ns = nodes'" "m = mv"
    using assms f by (simp_all add: applyForces_def Let_def)
  then show ?thesis
    using forLoop_speed [OF refl _ _ f] by simp
qed

lemma forLoop_split:
  "i \<le> k \<Longrightarrow> k \<le> n \<Longrightarrow>
   forLoop ds rnd fid fm ids fnode pfs n i st =
     forLoop ds rnd fid fm ids fnode pfs n k (forLoop ds rnd fid fm ids fnode pfs k i st)"
proof (induction ds rnd fid fm ids fnode pfs k i st rule: forLoop.induct)
  case (1 ds rnd fid fm ids fnode pfs k i st)
  show ?case
  proof (cases "i < k")
    case False
    then have "i = k" using 1(2) by simp
    then show ?thesis by (simp add: forLoop_done)
  next
    case True
    then have "i < n" using 1(3) by simp
    then show ?thesis
      using 1(1) [OF True] True 1(3) by (simp add: forLoop_step)
  qed
qed

lemma forLoop_Suc:
  "forLoop ds rnd fid fm ids fnode pfs (Suc k) 0 st =
     stepNode ds rnd fid fm ids fnode pfs k (forLoop ds rnd fid fm ids fnode pfs k 0 st)"
proof -
  have "forLoop ds rnd fid fm ids fnode pfs (Suc k) 0 st =
        forLoop ds rnd fid fm ids fnode pfs (Suc k) k (forLoop ds rnd fid fm ids fnode pfs k 0 st)"
    by (rule forLoop_split) simp_all
  also have "\<dots> = forLoop ds rnd fid fm ids fnode pfs (Suc k) (k + 1)
                     (stepNode ds rnd fid fm ids fnode pfs k (forLoop ds rnd fid fm ids fnode pfs k 0 st))"
    by (rule forLoop_step) simp
  also have "\<dots> = stepNode ds rnd fid fm ids fnode pfs k (forLoop ds rnd fid fm ids fnode pfs k 0 st)"
    by (rule forLoop_done) simp
  finally show ?thesis .
qed

lemma forLoop_above:
  assumes "n \<le> j" and "j < length nodes"
  shows "velChange (nodes ! j) (fst (forLoop ds rnd fid fm ids fnode pfs n i (nodes, m, r)) ! j)"
  using assms
proof (induction ds rnd fid fm ids fnode pfs n i "(nodes, m, r)" arbitrary: nodes m r rule: forLoop.induct)
  case (1 ds rnd fid fm ids fnode pfs n i)
  show ?case
  proof (cases "i < n")
    case False
    then show ?thesis by (simp add: forLoop_done)
  next
    case True
    obtain nodes' m' r' where s: "stepNode ds rnd fid fm ids fnode pfs i (nodes, m, r) = (nodes', m', r')"
      by (cases "stepNode ds rnd fid fm ids fnode pfs i (nodes, m, r)")
    have fr: "stepFrame i nodes nodes'" by (rule stepNode_frame [OF s])
    have len: "length nodes' = length nodes" using fr by (simp add: stepFrame_def)
    have ne: "j \<noteq> i" using True 1(2) by simp
    have v1: "velChange (nodes ! j) (nodes' ! j)"
      using fr ne 1(3) by (simp add: stepFrame_def)
    have v2: "velChange (nodes' ! j) (fst (forLoop ds rnd fid fm ids fnode pfs n (i + 1) (nodes', m', r')) ! j)"
      using 1(1) [OF True s 1(2)] 1(3) len by simp
    show ?thesis
      using velChange_trans [OF v1 v2] True s by (simp add: forLoop_step)
  qed
qed

lemma speedOf_integrate_eq: "speedOf (integrate a) = DAMPING * speedOf a"
proof -
  have "speedOf (integrate a) =
          sqrt ((DAMPING * node_vx a) * (DAMPING * node_vx a) + (DAMPING * node_vy a) * (DAMPING * node_vy a))"
    by (simp add: integrate_def speedOf_def mult.commute)
  also have "\<dots> = \<bar>DAMPING\<bar> * speedOf a"
    unfolding hyp_scale by (simp add: speedOf_def)
  finally show ?thesis by (simp add: DAMPING_def)
qed

lemma speedOf_capVelocity_eq: "speedOf (capVelocity a) = min (speedOf a) MAX_VELOCITY"
proof (cases "speedOf a > MAX_VELOCITY")
  case False
  then show ?thesis by (simp add: capVelocity_def Let_def)
next
  case True
  let ?s = "speedOf a"
  have spos: "?s > 0" using True by (simp add: MAX_VELOCITY_def)
  have "speedOf (capVelocity a) =
          sqrt ((MAX_VELOCITY / ?s * node_vx a) * (MAX_VELOCITY / ?s * node_vx a) +
                (MAX_VELOCITY / ?s * node_vy a) * (MAX_VELOCITY / ?s * node_vy a))"
    using True by (simp add: capVelocity_def Let_def speedOf_def mult.commute)
  also have "\<dots> = \<bar>MAX_VELOCITY / ?s\<bar> * ?s"
    unfolding hyp_scale by (simp add: speedOf_def)
  also have "\<dots> = MAX_VELOCITY"
    using spos by (simp add: MAX_VELOCITY_def)
  finally show ?thesis using True by simp
qed

lemma forceStep_measured:
  assumes "i < length nodes"
  shows "fst (snd (forceStep ds rnd False False i (nodes, m, k))) = max m (measuredSpeed ds rnd i nodes k)"
    and "speedOf (fst (forceStep ds rnd False False i (nodes, m, k)) ! i) =
           DAMPING * min (measuredSpeed ds rnd i nodes k) MAX_VELOCITY"
proof -
  define nodes1 where "nodes1 = nodes[i := parentAttraction nodes False (nodes ! i)]"
  define nodes2 where "nodes2 = repulsionLoop ds False (length nodes) i (i + 1) nodes1"
  define a4 where "a4 = fst (jitterStep rnd k (dragPush ds (nodes2 ! i)))"
  have ms: "measuredSpeed ds rnd i nodes k = speedOf a4"
    by (simp add: measuredSpeed_def a4_def nodes2_def nodes1_def)
  have res: "forceStep ds rnd False False i (nodes, m, k) =
               (nodes2[i := integrate (capVelocity a4)], max m (speedOf a4), snd (jitterStep rnd k (dragPush ds (nodes2 ! i))))"
    by (simp add: forceStep_def Let_def nodes1_def nodes2_def a4_def split: prod.splits)
  have len2: "length nodes2 = length nodes" by (simp add: nodes2_def nodes1_def)
  show "fst (snd (forceStep ds rnd False False i (nodes, m, k))) = max m (measuredSpeed ds rnd i nodes k)"
    by (simp add: res ms)
  show "speedOf (fst (forceStep ds rnd False False i (nodes, m, k)) ! i) =
           DAMPING * min (measuredSpeed ds rnd i nodes k) MAX_VELOCITY"
    using assms len2 by (simp add: res ms speedOf_integrate_eq speedOf_capVelocity_eq)
qed

lemma measuredSpeed_nonneg [simp]: "0 \<le> measuredSpeed ds rnd i nodes k"
  by (simp add: measuredSpeed_def)

lemma observedSpeed_nonneg [simp]: "0 \<le> observedSpeed ds rnd nodes fid ids i"
  by (simp add: observedSpeed_def split: prod.splits)

lemma stateAtTurn_props:
  assumes "i < length nodes" and "stateAtTurn ds rnd nodes fid ids i = (ns, m, r)"
  shows "length ns = length nodes"
    and "integrated ds nodes fid ids i =
           forcesApply ds fid False ids (parentOfFocusedSubtaskOf (focusedNodeOf nodes fid)) (ns ! i)"
proof -
  let ?fn = "focusedNodeOf nodes fid"
  let ?pfs = "parentOfFocusedSubtaskOf ?fn"
  show "length ns = length nodes"
    using forLoop_length [of ds rnd fid False ids ?fn ?pfs i 0 "(nodes, 0, 0)"] assms(2)
    by (simp add: stateAtTurn_def)
  have "velChange (nodes ! i) (ns ! i)"
    using forLoop_above [of i i nodes ds rnd fid False ids ?fn ?pfs 0 0 0] assms
    by (simp add: stateAtTurn_def)
  then have "identEq (nodes ! i) (ns ! i)" by (rule velChange_identEq)
  then show "integrated ds nodes fid ids i = forcesApply ds fid False ids ?pfs (ns ! i)"
    by (simp add: integrated_def forcesApply_def identEq_guards)
qed

lemma stateAtTurn_Suc:
  "stateAtTurn ds rnd nodes fid ids (Suc i) =
     stepNode ds rnd fid False ids (focusedNodeOf nodes fid)
       (parentOfFocusedSubtaskOf (focusedNodeOf nodes fid)) i (stateAtTurn ds rnd nodes fid ids i)"
  by (simp add: stateAtTurn_def forLoop_Suc)

lemma stateAtTurn_max:
  "n \<le> length nodes \<Longrightarrow>
   fst (snd (stateAtTurn ds rnd nodes fid ids n)) =
     Max (set (0 # map (observedSpeed ds rnd nodes fid ids) (filter (integrated ds nodes fid ids) [0..<n])))"
proof (induction n)
  case 0
  then show ?case by (simp add: stateAtTurn_def forLoop_done)
next
  case (Suc n)
  let ?fn = "focusedNodeOf nodes fid"
  let ?pfs = "parentOfFocusedSubtaskOf ?fn"
  let ?S = "set (0 # map (observedSpeed ds rnd nodes fid ids) (filter (integrated ds nodes fid ids) [0..<n]))"
  obtain ns m r where st: "stateAtTurn ds rnd nodes fid ids n = (ns, m, r)"
    by (metis prod_cases3)
  have lt: "n < length nodes" using Suc.prems by simp
  have len: "length ns = length nodes"
    and integ: "integrated ds nodes fid ids n = forcesApply ds fid False ids ?pfs (ns ! n)"
    using stateAtTurn_props [OF lt st] by simp_all
  have m: "m = Max ?S" using Suc.IH lt st by simp
  show ?case
  proof (cases "integrated ds nodes fid ids n")
    case True
    then have fa: "forcesApply ds fid False ids ?pfs (ns ! n)" using integ by simp
    have obs: "observedSpeed ds rnd nodes fid ids n = measuredSpeed ds rnd n ns r"
      by (simp add: observedSpeed_def st)
    have "fst (snd (stateAtTurn ds rnd nodes fid ids (Suc n))) = max m (observedSpeed ds rnd nodes fid ids n)"
      using forceStep_measured(1) [of n ns ds rnd m r] lt len
      by (simp add: stateAtTurn_Suc st stepNode_force [OF fa] obs)
    also have "\<dots> = Max (insert (observedSpeed ds rnd nodes fid ids n) ?S)"
      unfolding m by (subst Max_insert) (simp_all add: max.commute)
    also have "insert (observedSpeed ds rnd nodes fid ids n) ?S =
               set (0 # map (observedSpeed ds rnd nodes fid ids) (filter (integrated ds nodes fid ids) [0..<Suc n]))"
      using True by auto
    finally show ?thesis .
  next
    case False
    then have fa: "\<not> forcesApply ds fid False ids ?pfs (ns ! n)" using integ by simp
    have "fst (snd (stateAtTurn ds rnd nodes fid ids (Suc n))) = m"
      by (simp add: stateAtTurn_Suc st stepNode_quiet [OF fa])
    moreover have "?S =
               set (0 # map (observedSpeed ds rnd nodes fid ids) (filter (integrated ds nodes fid ids) [0..<Suc n]))"
      using False by auto
    ultimately show ?thesis using m by simp
  qed
qed

lemma applyForces_stateAtTurn:
  "applyForces ds rnd nodes fid False ids =
     (fst (stateAtTurn ds rnd nodes fid ids (length nodes)), fst (snd (stateAtTurn ds rnd nodes fid ids (length nodes))))"
  by (simp add: applyForces_def stateAtTurn_def Let_def split: prod.splits)

lemma applyForces_turn:
  assumes "i < length nodes"
  shows "fst (applyForces ds rnd nodes fid False ids) ! i =
         fst (stepNode ds rnd fid False ids (focusedNodeOf nodes fid)
                (parentOfFocusedSubtaskOf (focusedNodeOf nodes fid)) i (stateAtTurn ds rnd nodes fid ids i)) ! i"
proof -
  let ?fn = "focusedNodeOf nodes fid"
  let ?pfs = "parentOfFocusedSubtaskOf ?fn"
  have "forLoop ds rnd fid False ids ?fn ?pfs (length nodes) 0 (nodes, 0, 0) =
        forLoop ds rnd fid False ids ?fn ?pfs (length nodes) i (stateAtTurn ds rnd nodes fid ids i)"
    unfolding stateAtTurn_def using assms by (intro forLoop_split) simp_all
  also have "\<dots> = forLoop ds rnd fid False ids ?fn ?pfs (length nodes) (i + 1)
                     (stepNode ds rnd fid False ids ?fn ?pfs i (stateAtTurn ds rnd nodes fid ids i))"
    using assms by (intro forLoop_step) simp
  finally have "fst (applyForces ds rnd nodes fid False ids) ! i =
      fst (forLoop ds rnd fid False ids ?fn ?pfs (length nodes) (i + 1)
                     (stepNode ds rnd fid False ids ?fn ?pfs i (stateAtTurn ds rnd nodes fid ids i))) ! i"
    by (simp add: applyForces_fst)
  also have "\<dots> = fst (stepNode ds rnd fid False ids ?fn ?pfs i (stateAtTurn ds rnd nodes fid ids i)) ! i"
    by (rule forLoop_below) simp
  finally show ?thesis .
qed

lemma applyForces_final_speed:
  assumes "i < length nodes"
  shows "speedOf (fst (applyForces ds rnd nodes fid False ids) ! i) =
           (if integrated ds nodes fid ids i
            then DAMPING * min (observedSpeed ds rnd nodes fid ids i) MAX_VELOCITY else 0)"
proof -
  let ?fn = "focusedNodeOf nodes fid"
  let ?pfs = "parentOfFocusedSubtaskOf ?fn"
  obtain ns m r where st: "stateAtTurn ds rnd nodes fid ids i = (ns, m, r)"
    by (metis prod_cases3)
  have len: "length ns = length nodes"
    and integ: "integrated ds nodes fid ids i = forcesApply ds fid False ids ?pfs (ns ! i)"
    using stateAtTurn_props [OF assms st] by simp_all
  show ?thesis
  proof (cases "integrated ds nodes fid ids i")
    case True
    then have fa: "forcesApply ds fid False ids ?pfs (ns ! i)" using integ by simp
    have obs: "observedSpeed ds rnd nodes fid ids i = measuredSpeed ds rnd i ns r"
      by (simp add: observedSpeed_def st)
    show ?thesis
      using forceStep_measured(2) [of i ns ds rnd m r] assms len True
      by (simp add: applyForces_turn [OF assms] st stepNode_force [OF fa] obs)
  next
    case False
    then have fa: "\<not> forcesApply ds fid False ids ?pfs (ns ! i)" using integ by simp
    have "speedOf (quietNode ds fid False ids ?fn ?pfs (ns ! i)) = 0"
      by (simp add: quietNode_def)
    then show ?thesis
      using assms len False by (simp add: applyForces_turn [OF assms] st stepNode_quiet [OF fa])
  qed
qed

lemma ex_state1:
  "stateAtTurn noDrag (\<lambda>_. 1 / 2) [exNodeB, exNodeF] None None (Suc 0) =
     ([exNodeB\<lparr>node_x := 41, node_vx := 92 / 100\<rparr>, exNodeF], 1, 2)"
  by (simp add: stateAtTurn_def forLoop.simps stepNode_def forceStep_def repulsionLoop.simps
        repulsePair_def parentAttraction_def dragPush_def jitterStep_def capVelocity_def integrate_def
        speedOf_def isDraggedNode_def inSubtree_def isFocusedNode_def isChildOfFocused_def
        isParentOfFocusedSubtask_def focusedNodeOf_def parentOfFocusedSubtaskOf_def
        noDrag_def exNodeB_def exNodeF_def Let_def MAX_VELOCITY_def DAMPING_def)

declare repulsionLoopE.simps [simp del]

declare forLoopE.simps [simp del]

lemma bindE_Inr [simp]: "bindE (Inr v) f = f v"
  by (simp add: bindE_def)

lemma divE_ok: "b \<noteq> 0 \<Longrightarrow> divE a b = Inr (a / b)"
  by (simp add: divE_def)

lemma elemAt_ok: "i < length xs \<Longrightarrow> elemAt xs i = Inr (xs ! i)"
  by (simp add: elemAt_def)

lemma divE_sqrt: "0 < x \<Longrightarrow> divE a (sqrt x) = Inr (a / sqrt x)"
  by (simp add: divE_def)

lemma parentAttractionE_ok: "parentAttractionE nodes fm a = Inr (parentAttraction nodes fm a)"
  by (simp add: parentAttractionE_def parentAttraction_def Let_def divE_ok divE_sqrt split: option.splits)

lemma repulsePairE_ok: "repulsePairE ds d a b = Inr (repulsePair ds d a b)"
  by (simp add: repulsePairE_def repulsePair_def Let_def divE_sqrt)

lemma dragPushE_ok: "dragPushE ds a = Inr (dragPush ds a)"
  by (simp add: dragPushE_def dragPush_def Let_def divE_ok divE_sqrt DRAG_PUSH_RADIUS_def split: option.splits)

lemma capVelocityE_ok: "capVelocityE a = Inr (capVelocity a)"
proof (cases "speedOf a > MAX_VELOCITY")
  case False
  then show ?thesis by (simp add: capVelocityE_def capVelocity_def Let_def)
next
  case True
  then have "speedOf a \<noteq> 0" by (simp add: MAX_VELOCITY_def)
  then show ?thesis
    using True by (simp add: capVelocityE_def capVelocity_def Let_def divE_ok)
qed

lemma repulsionLoopE_ok:
  "i < length nodes \<Longrightarrow> n = length nodes \<Longrightarrow>
   repulsionLoopE ds d n i j nodes = Inr (repulsionLoop ds d n i j nodes)"
proof (induction ds d n i j nodes rule: repulsionLoop.induct)
  case (1 ds d n i j nodes)
  show ?case
  proof (cases "j < n")
    case False
    then show ?thesis
      by (subst repulsionLoopE.simps, subst repulsionLoop.simps) simp
  next
    case True
    obtain a' b' where ab: "repulsePair ds d (nodes ! i) (nodes ! j) = (a', b')"
      by (cases "repulsePair ds d (nodes ! i) (nodes ! j)")
    have ih: "repulsionLoopE ds d n i (j + 1) (nodes[i := a', j := b']) =
              Inr (repulsionLoop ds d n i (j + 1) (nodes[i := a', j := b']))"
      using 1(1) [OF True refl ab [symmetric]] 1(2,3) by simp
    show ?thesis
      using True 1(2,3) ab ih
      by (subst repulsionLoopE.simps, subst repulsionLoop.simps)
         (simp add: elemAt_ok repulsePairE_ok)
  qed
qed

lemma forceStepE_ok:
  assumes "i < length nodes"
  shows "forceStepE ds rnd fm d i (nodes, m, k) = Inr (forceStep ds rnd fm d i (nodes, m, k))"
proof -
  define nodes1 where "nodes1 = nodes[i := parentAttraction nodes fm (nodes ! i)]"
  define nodes2 where "nodes2 = repulsionLoop ds d (length nodes) i (Suc i) nodes1"
  have len1: "length nodes1 = length nodes" by (simp add: nodes1_def)
  have len2: "length nodes2 = length nodes" by (simp add: nodes2_def len1)
  have rl: "repulsionLoopE ds d (length nodes) i (Suc i) nodes1 = Inr nodes2"
    unfolding nodes2_def using assms len1 by (intro repulsionLoopE_ok) simp_all
  have a: "forceStep ds rnd fm d i (nodes, m, k) =
             (case jitterStep rnd k (dragPush ds (nodes2 ! i)) of
                (a4, k') \<Rightarrow> (nodes2[i := integrate (capVelocity a4)], max m (speedOf a4), k'))"
    by (simp add: forceStep_def Let_def nodes1_def nodes2_def split: prod.splits)
  have b: "forceStepE ds rnd fm d i (nodes, m, k) =
             (case jitterStep rnd k (dragPush ds (nodes2 ! i)) of
                (a4, k') \<Rightarrow> Inr (nodes2[i := integrate (capVelocity a4)], max m (speedOf a4), k'))"
    using assms len2
    by (simp add: forceStepE_def Let_def elemAt_ok parentAttractionE_ok nodes1_def [symmetric] rl
          dragPushE_ok capVelocityE_ok split: prod.splits)
  show ?thesis
    unfolding a b by (simp split: prod.splits)
qed

lemma stepNodeE_ok:
  assumes "i < length nodes"
  shows "stepNodeE ds rnd fid fm ids fnode pfs i (nodes, m, k) =
           Inr (stepNode ds rnd fid fm ids fnode pfs i (nodes, m, k))"
  using assms by (simp add: stepNodeE_def stepNode_def Let_def elemAt_ok forceStepE_ok)

lemma forLoopE_ok:
  "n = length (fst st) \<Longrightarrow>
   forLoopE ds rnd fid fm ids fnode pfs n i st = Inr (forLoop ds rnd fid fm ids fnode pfs n i st)"
proof (induction ds rnd fid fm ids fnode pfs n i st rule: forLoop.induct)
  case (1 ds rnd fid fm ids fnode pfs n i st)
  show ?case
  proof (cases "i < n")
    case False
    then show ?thesis
      by (subst forLoopE.simps) (simp add: forLoop_done)
  next
    case True
    obtain nodes m k where st: "st = (nodes, m, k)" by (cases st)
    obtain nodes' m' k' where s: "stepNode ds rnd fid fm ids fnode pfs i (nodes, m, k) = (nodes', m', k')"
      by (cases "stepNode ds rnd fid fm ids fnode pfs i (nodes, m, k)")
    have len: "length nodes' = length nodes"
      using stepNode_frame [OF s] by (simp add: stepFrame_def)
    have lt: "i < length nodes" using True 1(2) st by simp
    have ih: "forLoopE ds rnd fid fm ids fnode pfs n (i + 1) (nodes', m', k') =
              Inr (forLoop ds rnd fid fm ids fnode pfs n (i + 1) (nodes', m', k'))"
      using 1(1) [OF True] 1(2) s st len by simp
    show ?thesis
      using True ih s
      by (subst forLoopE.simps) (simp add: st stepNodeE_ok [OF lt] forLoop_step)
  qed
qed

lemma applyForcesE_ok:
  "applyForcesE ds rnd nodes fid fm ids = Inr (applyForces ds rnd nodes fid fm ids)"
  by (simp add: applyForcesE_def applyForces_def Let_def forLoopE_ok split: prod.splits)

lemma repulsePair_coincident:
  "node_x a = node_x b \<Longrightarrow> node_y a = node_y b \<Longrightarrow> repulsePair ds d a b = (a, b)"
  by (simp add: repulsePair_def Let_def)

lemma repulsionLoop_coincident:
  assumes "\<forall>n\<in>set nodes. node_x n = px \<and> node_y n = py" and "i < length nodes" and "n = length nodes"
  shows "repulsionLoop ds d n i j nodes = nodes"
  using assms
proof (induction ds d n i j nodes rule: repulsionLoop.induct)
  case (1 ds d n i j nodes)
  show ?case
  proof (cases "j < n")
    case False
    then show ?thesis by (subst repulsionLoop.simps) simp
  next
    case True
    have "nodes ! i \<in> set nodes" "nodes ! j \<in> set nodes"
      using True 1(3,4) by simp_all
    then have rp: "repulsePair ds d (nodes ! i) (nodes ! j) = (nodes ! i, nodes ! j)"
      using 1(2) by (intro repulsePair_coincident) simp_all
    have same: "nodes[i := nodes ! i, j := nodes ! j] = nodes"
      by simp
    have "repulsionLoop ds d n i (j + 1) (nodes[i := nodes ! i, j := nodes ! j]) =
          nodes[i := nodes ! i, j := nodes ! j]"
      using 1(1) [OF True refl rp [symmetric]] 1(2,3,4) by simp
    then show ?thesis
      using True rp same by (subst repulsionLoop.simps) simp
  qed
qed

lemma stepNode_atRest:
  assumes "allAtRest px py nodes" and "drag_nodeId ds \<noteq> None \<longrightarrow> drag_x ds = px \<and> drag_y ds = py"
    and "i < length nodes"
  shows "stepNode ds rnd fid fm ids fnode pfs i (nodes, 0, k) = (nodes, 0, k)"
proof -
  let ?a = "nodes ! i"
  have mem: "?a \<in> set nodes" using assms(3) by simp
  then have a: "node_x ?a = px" "node_y ?a = py" "node_vx ?a = 0" "node_vy ?a = 0"
    using assms(1) by (simp_all add: allAtRest_def)
  have pos: "\<forall>n\<in>set nodes. node_x n = px \<and> node_y n = py"
    using assms(1) by (simp add: allAtRest_def)
  have z: "?a\<lparr>node_vx := 0, node_vy := 0\<rparr> = ?a"
    using a by simp
  show ?thesis
  proof (cases "forcesApply ds fid fm ids pfs ?a")
    case False
    have "quietNode ds fid fm ids fnode pfs ?a = ?a"
    proof (cases "isDraggedNode ds ?a")
      case True
      then have "drag_x ds = px" "drag_y ds = py"
        using assms(2) by (auto simp: isDraggedNode_def)
      then have "?a\<lparr>node_x := drag_x ds, node_y := drag_y ds, node_vx := 0, node_vy := 0\<rparr> = ?a"
        using a by simp
      then show ?thesis using True by (simp add: quietNode_def focusModeNode_def)
    next
      case nd: False
      have "?a\<lparr>node_vx := node_vx ?a * (85 / 100), node_vy := node_vy ?a * (85 / 100)\<rparr> = ?a"
        using a by simp
      then show ?thesis using nd z by (simp add: quietNode_def focusModeNode_def)
    qed
    then show ?thesis by (simp add: stepNode_quiet [OF False])
  next
    case True
    have pa: "parentAttraction nodes fm ?a = ?a"
    proof (cases "node_parentId ?a")
      case None
      then show ?thesis by (simp add: parentAttraction_def)
    next
      case (Some pid)
      show ?thesis
      proof (cases "nodeMap_get nodes pid")
        case None
        then show ?thesis using Some by (simp add: parentAttraction_def)
      next
        case (Some parent)
        then have "parent \<in> set nodes"
          unfolding nodeMap_get_def by (auto dest!: map_of_SomeD)
        then have "node_x parent = px" "node_y parent = py" using pos by simp_all
        then show ?thesis
          using \<open>node_parentId ?a = Some pid\<close> Some a by (simp add: parentAttraction_def Let_def)
      qed
    qed
    have rl: "repulsionLoop ds False (length nodes) i (Suc i) nodes = nodes"
      by (rule repulsionLoop_coincident [OF pos assms(3) refl])
    have dp: "dragPush ds ?a = ?a"
    proof (cases "drag_nodeId ds")
      case None
      then show ?thesis by (simp add: dragPush_def)
    next
      case (Some did)
      then have "drag_x ds = px" "drag_y ds = py" using assms(2) by simp_all
      then show ?thesis using Some a by (simp add: dragPush_def Let_def)
    qed
    have js: "jitterStep rnd k ?a = (?a, k)"
      using a by (simp add: jitterStep_def speedOf_def Let_def)
    have sp: "speedOf ?a = 0" using a by (simp add: speedOf_def)
    have cv: "capVelocity ?a = ?a"
      using sp by (simp add: capVelocity_def Let_def MAX_VELOCITY_def)
    have ig: "integrate ?a = ?a"
      using a by (simp add: integrate_def)
    have "forceStep ds rnd fm False i (nodes, 0, k) = (nodes, 0, k)"
      by (simp add: forceStep_def Let_def pa rl dp js sp cv ig)
    then show ?thesis by (simp add: stepNode_force [OF True])
  qed
qed

lemma forLoop_atRest:
  assumes "allAtRest px py nodes" and "drag_nodeId ds \<noteq> None \<longrightarrow> drag_x ds = px \<and> drag_y ds = py"
    and "n = length nodes"
  shows "forLoop ds rnd fid fm ids fnode pfs n i (nodes, 0, k) = (nodes, 0, k)"
proof (induction "n - i" arbitrary: i)
  case 0
  then show ?case by (simp add: forLoop_done)
next
  case (Suc d)
  then have lt: "i < n" by simp
  have "forLoop ds rnd fid fm ids fnode pfs n (i + 1) (nodes, 0, k) = (nodes, 0, k)"
    using Suc.hyps(1) [of "i + 1"] Suc.hyps(2) by simp
  then show ?case
    using lt assms(3) by (simp add: forLoop_step stepNode_atRest [OF assms(1,2)])
qed

lemma applyForces_atRest:
  assumes "allAtRest px py nodes" and "drag_nodeId ds \<noteq> None \<longrightarrow> drag_x ds = px \<and> drag_y ds = py"
  shows "applyForces ds rnd nodes fid fm ids = (nodes, 0)"
  by (simp add: applyForces_def Let_def forLoop_atRest [OF assms refl])

subsection \<open>The claims about the force simulator\<close>

text \<open>
  Claim C1 (exclusivity invariant). For every call of \<open>applyForces\<close> with a set
  \<open>focusedSubtreeIds\<close>, every node whose id is in the set ends the call with zero velocity,
  and with the position it had before the call, unless it is the dragged node: that one is
  pinned to the drag pointer. The array keeps its length. This holds in focus mode and in free
  mode, whatever forces the other nodes exert during the call.
\<close>

theorem applyForces_focused_subtree_excluded:
  assumes "k < length nodes" and "node_id (nodes ! k) \<in> S"
  shows "length (fst (applyForces ds rnd nodes focusedNodeId inFocusMode (Some S))) = length nodes \<and>
         node_vx (fst (applyForces ds rnd nodes focusedNodeId inFocusMode (Some S)) ! k) = 0 \<and>
         node_vy (fst (applyForces ds rnd nodes focusedNodeId inFocusMode (Some S)) ! k) = 0 \<and>
         (if drag_nodeId ds = Some (node_id (nodes ! k))
          then node_x (fst (applyForces ds rnd nodes focusedNodeId inFocusMode (Some S)) ! k) = drag_x ds \<and>
               node_y (fst (applyForces ds rnd nodes focusedNodeId inFocusMode (Some S)) ! k) = drag_y ds
          else node_x (fst (applyForces ds rnd nodes focusedNodeId inFocusMode (Some S)) ! k) = node_x (nodes ! k) \<and>
               node_y (fst (applyForces ds rnd nodes focusedNodeId inFocusMode (Some S)) ! k) = node_y (nodes ! k))"
proof (cases "isDraggedNode ds (nodes ! k)")
  case True
  then show ?thesis
    using applyForces_dragged [OF assms(1) True] by (simp add: applyForces_length isDraggedNode_def)
next
  case False
  then have "lockedNode ds focusedNodeId inFocusMode (Some S)
               (parentOfFocusedSubtaskOf (focusedNodeOf nodes focusedNodeId)) (nodes ! k)"
    using assms(2) by (simp add: lockedNode_def inSubtree_def)
  then show ?thesis
    using applyForces_locked [OF assms(1)] False by (simp add: applyForces_length isDraggedNode_def)
qed

theorem applyForces_focused_subtree_excluded_witness:
  "node_vx (fst (applyForces noDrag (\<lambda>_. 1 / 2) [exNodeB, exNodeP, exNodeC] (Some ''p'') False (Some {''p'', ''c''})) ! 2) = 0 \<and>
   node_vy (fst (applyForces noDrag (\<lambda>_. 1 / 2) [exNodeB, exNodeP, exNodeC] (Some ''p'') False (Some {''p'', ''c''})) ! 2) = 0 \<and>
   node_x (fst (applyForces noDrag (\<lambda>_. 1 / 2) [exNodeB, exNodeP, exNodeC] (Some ''p'') False (Some {''p'', ''c''})) ! 2) = 30 \<and>
   node_y (fst (applyForces noDrag (\<lambda>_. 1 / 2) [exNodeB, exNodeP, exNodeC] (Some ''p'') False (Some {''p'', ''c''})) ! 2) = 0"
  using applyForces_focused_subtree_excluded [of 2 "[exNodeB, exNodeP, exNodeC]" "{''p'', ''c''}" noDrag "\<lambda>_. 1 / 2" "Some ''p''" False]
  by (simp add: exNodeC_def noDrag_def)

text \<open>
  Claim C4, as amended. In free mode (\<open>inFocusMode\<close> false) the value returned by
  \<open>applyForces\<close> is the largest of the speeds the call measures: for every node that reaches the
  force computation the speed is read at the node's own turn, after the jitter and before the
  velocity cap, and the returned value is the maximum of \<open>0\<close> and these readings. After the
  call such a node has the speed \<open>DAMPING * min reading MAX_VELOCITY\<close> and every other node has
  speed \<open>0\<close>; so the returned value is not negative and is at least the speed every node has
  after the call. In focus mode no speed is measured and the call returns \<open>0\<close>.
\<close>

theorem applyForces_maxVelocity_free_mode:
  "snd (applyForces ds rnd nodes focusedNodeId False focusedSubtreeIds) =
     Max (set (0 # map (observedSpeed ds rnd nodes focusedNodeId focusedSubtreeIds)
                      (filter (integrated ds nodes focusedNodeId focusedSubtreeIds) [0..<length nodes]))) \<and>
   (\<forall>k<length nodes.
      speedOf (fst (applyForces ds rnd nodes focusedNodeId False focusedSubtreeIds) ! k) =
        (if integrated ds nodes focusedNodeId focusedSubtreeIds k
         then DAMPING * min (observedSpeed ds rnd nodes focusedNodeId focusedSubtreeIds k) MAX_VELOCITY
         else 0)) \<and>
   0 \<le> snd (applyForces ds rnd nodes focusedNodeId False focusedSubtreeIds) \<and>
   (\<forall>k<length nodes.
      speedOf (fst (applyForces ds rnd nodes focusedNodeId False focusedSubtreeIds) ! k)
        \<le> snd (applyForces ds rnd nodes focusedNodeId False focusedSubtreeIds)) \<and>
   snd (applyForces ds rnd nodes focusedNodeId True focusedSubtreeIds) = 0"
proof (intro conjI allI impI)
  show "snd (applyForces ds rnd nodes focusedNodeId False focusedSubtreeIds) =
     Max (set (0 # map (observedSpeed ds rnd nodes focusedNodeId focusedSubtreeIds)
                      (filter (integrated ds nodes focusedNodeId focusedSubtreeIds) [0..<length nodes])))"
    by (simp only: applyForces_stateAtTurn snd_conv stateAtTurn_max [OF order_refl])
  show "snd (applyForces ds rnd nodes focusedNodeId True focusedSubtreeIds) = 0"
    by (simp add: applyForces_focus)
  show "0 \<le> snd (applyForces ds rnd nodes focusedNodeId False focusedSubtreeIds)"
    using applyForces_speed [of ds rnd nodes focusedNodeId focusedSubtreeIds
      "fst (applyForces ds rnd nodes focusedNodeId False focusedSubtreeIds)"
      "snd (applyForces ds rnd nodes focusedNodeId False focusedSubtreeIds)"]
    by simp
next
  fix k assume "k < length nodes"
  then show "speedOf (fst (applyForces ds rnd nodes focusedNodeId False focusedSubtreeIds) ! k) =
        (if integrated ds nodes focusedNodeId focusedSubtreeIds k
         then DAMPING * min (observedSpeed ds rnd nodes focusedNodeId focusedSubtreeIds k) MAX_VELOCITY
         else 0)"
    by (rule applyForces_final_speed)
next
  fix k assume "k < length nodes"
  then show "speedOf (fst (applyForces ds rnd nodes focusedNodeId False focusedSubtreeIds) ! k)
        \<le> snd (applyForces ds rnd nodes focusedNodeId False focusedSubtreeIds)"
    using applyForces_speed [of ds rnd nodes focusedNodeId focusedSubtreeIds
      "fst (applyForces ds rnd nodes focusedNodeId False focusedSubtreeIds)"
      "snd (applyForces ds rnd nodes focusedNodeId False focusedSubtreeIds)"]
    by simp
qed

text \<open>
  The witness: two tasks far apart, with velocities \<open>(1, 0)\<close> and \<open>(6, 8)\<close>. The readings are
  \<open>1\<close> and \<open>10\<close>, the call returns \<open>10\<close>, and the nodes end with the speeds \<open>0.92\<close> and
  \<open>4.6\<close> (the second one is capped at \<open>5\<close> before the damping).
\<close>

theorem applyForces_maxVelocity_free_mode_witness:
  "snd (applyForces noDrag (\<lambda>_. 1 / 2) [exNodeB, exNodeF] None False None) = 10 \<and>
   speedOf (fst (applyForces noDrag (\<lambda>_. 1 / 2) [exNodeB, exNodeF] None False None) ! 0) = 92 / 100 \<and>
   speedOf (fst (applyForces noDrag (\<lambda>_. 1 / 2) [exNodeB, exNodeF] None False None) ! 1) = 46 / 10 \<and>
   snd (applyForces noDrag (\<lambda>_. 1 / 2) [exNodeB, exNodeF] None True None) = 0"
proof -
  have s0: "stateAtTurn noDrag (\<lambda>_. 1 / 2) [exNodeB, exNodeF] None None 0 = ([exNodeB, exNodeF], 0, 0)"
    by (simp add: stateAtTurn_def forLoop.simps)
  have sq: "sqrt 100 = 10"
    using real_sqrt_abs2 [of 10] by simp
  have o0: "observedSpeed noDrag (\<lambda>_. 1 / 2) [exNodeB, exNodeF] None None 0 = 1"
    unfolding observedSpeed_def s0
    by (simp add: measuredSpeed_def repulsionLoop.simps repulsePair_def
          parentAttraction_def dragPush_def jitterStep_def speedOf_def noDrag_def exNodeB_def exNodeF_def Let_def)
  have o1: "observedSpeed noDrag (\<lambda>_. 1 / 2) [exNodeB, exNodeF] None None (Suc 0) = 10"
    unfolding observedSpeed_def ex_state1
    by (simp add: measuredSpeed_def repulsionLoop.simps
          parentAttraction_def dragPush_def jitterStep_def speedOf_def noDrag_def exNodeF_def Let_def sq)
  have i: "integrated noDrag [exNodeB, exNodeF] None None 0" "integrated noDrag [exNodeB, exNodeF] None None (Suc 0)"
    by (simp_all add: integrated_def forcesApply_def isDraggedNode_def inSubtree_def isFocusedNode_def
          isParentOfFocusedSubtask_def focusedNodeOf_def parentOfFocusedSubtaskOf_def
          noDrag_def exNodeB_def exNodeF_def)
  have up: "[0..<2] = [0, 1]" by (simp add: upt_rec)
  show ?thesis
    using applyForces_maxVelocity_free_mode [of noDrag "\<lambda>_. 1 / 2" "[exNodeB, exNodeF]" None None]
    by (simp add: o0 o1 i up DAMPING_def MAX_VELOCITY_def less_Suc_eq)
qed

text \<open>
  Claim C4 as stated fails in focus mode: a background node that enters the call with velocity
  \<open>(1, 0)\<close> leaves it with velocity \<open>(0.85, 0)\<close>, speed \<open>0.85\<close>, and the call returns \<open>0\<close>.
\<close>

theorem applyForces_maxVelocity_counterexample:
  "snd (applyForces noDrag (\<lambda>_. 1 / 2) [exNodeB] None True None) = 0 \<and>
   speedOf (fst (applyForces noDrag (\<lambda>_. 1 / 2) [exNodeB] None True None) ! 0) = 85 / 100 \<and>
   \<not> speedOf (fst (applyForces noDrag (\<lambda>_. 1 / 2) [exNodeB] None True None) ! 0)
       \<le> snd (applyForces noDrag (\<lambda>_. 1 / 2) [exNodeB] None True None)"
proof -
  have "sqrt ((85 / 100) * (85 / 100)) = (85 / 100 :: real)"
    by (subst real_sqrt_abs2) simp
  then show ?thesis
    by (simp add: applyForces_focus focusModeNode_def isDraggedNode_def inSubtree_def isFocusedNode_def
          focusedNodeOf_def parentOfFocusedSubtaskOf_def isParentOfFocusedSubtask_def isChildOfFocused_def
          noDrag_def exNodeB_def speedOf_def)
qed

text \<open>
  Claim C5, as amended. In free mode a milestone node that is not the dragged node ends the
  call exactly where it was, with zero velocity: whatever repulsion an earlier node added to
  its velocity during the call is discarded at its own turn, and the drag wake is never
  applied to it. No force of the simulator displaces it.
\<close>

theorem applyForces_milestone_locked:
  assumes "k < length nodes" and "node_type (nodes ! k) = Milestone"
    and "drag_nodeId ds \<noteq> Some (node_id (nodes ! k))"
  shows "fst (applyForces ds rnd nodes focusedNodeId False focusedSubtreeIds) ! k =
           (nodes ! k)\<lparr>node_vx := 0, node_vy := 0\<rparr>"
  using assms by (intro applyForces_locked) (simp_all add: lockedNode_def isDraggedNode_def)

text \<open>The witness: a task overlaps the milestone and a cloud is dragged five units away from it.\<close>

theorem applyForces_milestone_locked_witness:
  "fst (applyForces exDrag (\<lambda>_. 1 / 2) [exNodeB, exMilestone] None False None) ! 1 = exMilestone"
  using applyForces_milestone_locked [of 1 "[exNodeB, exMilestone]" exDrag "\<lambda>_. 1 / 2" None None]
  by (simp add: exMilestone_def exDrag_def)

text \<open>
  Claim C5 as stated says that repulsion and drag wake can displace a milestone during a step
  in free mode. They cannot: there is no drag state, random source, node array, focus and index
  for which a milestone that is not dragged changes a coordinate.
\<close>

theorem applyForces_milestone_displaced_counterexample:
  "\<not> (\<exists>ds rnd nodes focusedNodeId focusedSubtreeIds k.
        k < length nodes \<and> node_type (nodes ! k) = Milestone \<and>
        drag_nodeId ds \<noteq> Some (node_id (nodes ! k)) \<and>
        (node_x (fst (applyForces ds rnd nodes focusedNodeId False focusedSubtreeIds) ! k) \<noteq> node_x (nodes ! k) \<or>
         node_y (fst (applyForces ds rnd nodes focusedNodeId False focusedSubtreeIds) ! k) \<noteq> node_y (nodes ! k)))"
proof
  assume "\<exists>ds rnd nodes focusedNodeId focusedSubtreeIds k.
        k < length nodes \<and> node_type (nodes ! k) = Milestone \<and>
        drag_nodeId ds \<noteq> Some (node_id (nodes ! k)) \<and>
        (node_x (fst (applyForces ds rnd nodes focusedNodeId False focusedSubtreeIds) ! k) \<noteq> node_x (nodes ! k) \<or>
         node_y (fst (applyForces ds rnd nodes focusedNodeId False focusedSubtreeIds) ! k) \<noteq> node_y (nodes ! k))"
  then obtain ds rnd nodes fid ids k where h: "k < length nodes" "node_type (nodes ! k) = Milestone"
      "drag_nodeId ds \<noteq> Some (node_id (nodes ! k))"
      "node_x (fst (applyForces ds rnd nodes fid False ids) ! k) \<noteq> node_x (nodes ! k) \<or>
       node_y (fst (applyForces ds rnd nodes fid False ids) ! k) \<noteq> node_y (nodes ! k)"
    by blast
  have "lockedNode ds fid False ids (parentOfFocusedSubtaskOf (focusedNodeOf nodes fid)) (nodes ! k)"
    using h(2,3) by (simp add: lockedNode_def isDraggedNode_def)
  then have "fst (applyForces ds rnd nodes fid False ids) ! k = (nodes ! k)\<lparr>node_vx := 0, node_vy := 0\<rparr>"
    by (rule applyForces_locked [OF h(1)])
  then show False using h(4) by simp
qed

text \<open>
  Claim C7 (totality on degenerate inputs). With the faults of the code made explicit,
  \<open>applyForces\<close> never faults: for every drag state, random source, node array and focus
  arguments the call reads no element past the end of the array and divides by no zero, and it
  returns what the model without faults returns. With no nodes it returns the empty array and
  \<open>0\<close>. On the fully degenerate array, every node at rest at one point, which is the drag
  point if a cloud is dragged, the call changes nothing and returns \<open>0\<close>: every pair coincides
  and is skipped by the repulsion, every child is at its parent's position and is skipped by
  the attraction, every node is at the drag point and is skipped by the push. For a single
  pair at the same coordinates the repulsion block returns both nodes unchanged without
  dividing; so does the drag push for a node at the drag point and the attraction for a node
  at its parent's position. Each of these blocks divides by the distance, which is zero on
  these inputs; its \<open>> 0\<close> test is what keeps the division from being reached.
\<close>

theorem applyForces_degenerate_inputs:
  "applyForcesE ds rnd nodes focusedNodeId inFocusMode focusedSubtreeIds =
     Inr (applyForces ds rnd nodes focusedNodeId inFocusMode focusedSubtreeIds) \<and>
   applyForcesE ds rnd [] focusedNodeId inFocusMode focusedSubtreeIds = Inr ([], 0) \<and>
   (allAtRest px py nodes \<and> (drag_nodeId ds \<noteq> None \<longrightarrow> drag_x ds = px \<and> drag_y ds = py) \<longrightarrow>
      applyForcesE ds rnd nodes focusedNodeId inFocusMode focusedSubtreeIds = Inr (nodes, 0)) \<and>
   (node_x a = node_x b \<and> node_y a = node_y b \<longrightarrow> repulsePairE ds isDragged a b = Inr (a, b)) \<and>
   (node_x a = drag_x ds \<and> node_y a = drag_y ds \<longrightarrow> dragPushE ds a = Inr a) \<and>
   (node_parentId a = Some pid \<and> nodeMap_get nodes pid = Some parent \<and>
    node_x parent = node_x a \<and> node_y parent = node_y a \<longrightarrow>
      parentAttractionE nodes inFocusMode a = Inr a)"
proof (intro conjI impI)
  show "applyForcesE ds rnd nodes focusedNodeId inFocusMode focusedSubtreeIds =
     Inr (applyForces ds rnd nodes focusedNodeId inFocusMode focusedSubtreeIds)"
    by (rule applyForcesE_ok)
  show "applyForcesE ds rnd [] focusedNodeId inFocusMode focusedSubtreeIds = Inr ([], 0)"
    by (simp add: applyForcesE_ok applyForces_def Let_def forLoop_done)
next
  assume h: "allAtRest px py nodes \<and> (drag_nodeId ds \<noteq> None \<longrightarrow> drag_x ds = px \<and> drag_y ds = py)"
  have "applyForces ds rnd nodes focusedNodeId inFocusMode focusedSubtreeIds = (nodes, 0)"
    using h by (intro applyForces_atRest [where px = px and py = py]) blast+
  then show "applyForcesE ds rnd nodes focusedNodeId inFocusMode focusedSubtreeIds = Inr (nodes, 0)"
    by (simp add: applyForcesE_ok)
next
  assume "node_x a = node_x b \<and> node_y a = node_y b"
  then show "repulsePairE ds isDragged a b = Inr (a, b)"
    by (simp add: repulsePairE_ok repulsePair_coincident)
next
  assume "node_x a = drag_x ds \<and> node_y a = drag_y ds"
  then show "dragPushE ds a = Inr a"
    by (simp add: dragPushE_ok dragPush_def Let_def split: option.splits)
next
  assume "node_parentId a = Some pid \<and> nodeMap_get nodes pid = Some parent \<and>
          node_x parent = node_x a \<and> node_y parent = node_y a"
  then show "parentAttractionE nodes inFocusMode a = Inr a"
    by (simp add: parentAttractionE_ok parentAttraction_def Let_def)
qed

text \<open>
  The witness: the pile of three nodes at the drag point, an ordinary array of three clouds,
  two clouds at the same coordinates, a cloud at the drag point and a child at its parent's
  position.
\<close>

theorem applyForces_degenerate_inputs_witness:
  "applyForcesE exDrag (\<lambda>_. 1 / 2) exPile None False None = Inr (exPile, 0) \<and>
   applyForcesE exDrag (\<lambda>_. 1 / 2) [exNodeB, exNodeP, exNodeC] None False None =
     Inr (applyForces exDrag (\<lambda>_. 1 / 2) [exNodeB, exNodeP, exNodeC] None False None) \<and>
   repulsePairE exDrag False exNodeB (exNodeB\<lparr>node_id := ''z''\<rparr>) = Inr (exNodeB, exNodeB\<lparr>node_id := ''z''\<rparr>) \<and>
   dragPushE exDrag (exNodeB\<lparr>node_x := 25, node_y := 0\<rparr>) = Inr (exNodeB\<lparr>node_x := 25, node_y := 0\<rparr>) \<and>
   parentAttractionE [exNodeP, exNodeC\<lparr>node_x := 0\<rparr>] False (exNodeC\<lparr>node_x := 0\<rparr>) =
     Inr (exNodeC\<lparr>node_x := 0\<rparr>)"
proof -
  have rest: "allAtRest 25 0 exPile"
    by (simp add: allAtRest_def exPile_def exNodeB_def exNodeC_def)
  have dr: "drag_x exDrag = 25" "drag_y exDrag = 0"
    by (simp_all add: exDrag_def)
  show ?thesis
    using applyForces_degenerate_inputs [where ds = exDrag and rnd = "\<lambda>_. 1 / 2" and nodes = exPile
             and focusedNodeId = None and inFocusMode = False and focusedSubtreeIds = None
             and px = 25 and py = 0]
          applyForces_degenerate_inputs [where ds = exDrag and rnd = "\<lambda>_. 1 / 2"
             and nodes = "[exNodeB, exNodeP, exNodeC]"
             and focusedNodeId = None and inFocusMode = False and focusedSubtreeIds = None]
          applyForces_degenerate_inputs [where ds = exDrag and a = exNodeB and b = "exNodeB\<lparr>node_id := ''z''\<rparr>"
             and isDragged = False]
          applyForces_degenerate_inputs [where ds = exDrag and a = "exNodeB\<lparr>node_x := 25, node_y := 0\<rparr>"]
          applyForces_degenerate_inputs [where a = "exNodeC\<lparr>node_x := 0\<rparr>" and pid = "''p''"
             and nodes = "[exNodeP, exNodeC\<lparr>node_x := 0\<rparr>]" and parent = exNodeP and inFocusMode = False]
          rest dr
    by (simp add: exDrag_def exNodeB_def exNodeC_def exNodeP_def nodeMap_get_def)
qed

text \<open>
  Claim C10 (focus-mode position freeze). With \<open>inFocusMode\<close> true the call returns \<open>0\<close> and
  keeps the length of the array; the dragged node is pinned to the pointer with zero velocity;
  every other node keeps its position; a node of the focused subtree has its velocity zeroed;
  the focused node, the parent of a focused subtask and the children of the focused node are
  left untouched; every remaining (background) node only has its velocity multiplied by \<open>0.85\<close>.
\<close>

theorem applyForces_focus_mode_freeze:
  "snd (applyForces ds rnd nodes focusedNodeId True focusedSubtreeIds) = 0 \<and>
   length (fst (applyForces ds rnd nodes focusedNodeId True focusedSubtreeIds)) = length nodes \<and>
   (\<forall>k<length nodes.
      (let a = nodes ! k;
           b = fst (applyForces ds rnd nodes focusedNodeId True focusedSubtreeIds) ! k;
           focusedNode = focusedNodeOf nodes focusedNodeId;
           special = (isFocusedNode focusedNodeId a \<or>
                      isParentOfFocusedSubtask (parentOfFocusedSubtaskOf focusedNode) a \<or>
                      isChildOfFocused focusedNode a)
       in (isDraggedNode ds a \<longrightarrow>
             b = a\<lparr>node_x := drag_x ds, node_y := drag_y ds, node_vx := 0, node_vy := 0\<rparr>) \<and>
          (\<not> isDraggedNode ds a \<longrightarrow> node_x b = node_x a \<and> node_y b = node_y a) \<and>
          (\<not> isDraggedNode ds a \<and> inSubtree focusedSubtreeIds a \<longrightarrow>
             b = a\<lparr>node_vx := 0, node_vy := 0\<rparr>) \<and>
          (\<not> isDraggedNode ds a \<and> \<not> inSubtree focusedSubtreeIds a \<and> special \<longrightarrow> b = a) \<and>
          (\<not> isDraggedNode ds a \<and> \<not> inSubtree focusedSubtreeIds a \<and> \<not> special \<longrightarrow>
             b = a\<lparr>node_vx := node_vx a * (85 / 100), node_vy := node_vy a * (85 / 100)\<rparr>)))"
  by (simp add: applyForces_focus focusModeNode_def Let_def)

theorem applyForces_focus_mode_freeze_witness:
  "snd (applyForces noDrag (\<lambda>_. 1 / 2) [exNodeB, exNodeP, exNodeC] (Some ''p'') True None) = 0 \<and>
   fst (applyForces noDrag (\<lambda>_. 1 / 2) [exNodeB, exNodeP, exNodeC] (Some ''p'') True None) ! 0 =
     exNodeB\<lparr>node_vx := 85 / 100, node_vy := 0\<rparr> \<and>
   fst (applyForces noDrag (\<lambda>_. 1 / 2) [exNodeB, exNodeP, exNodeC] (Some ''p'') True None) ! 1 = exNodeP \<and>
   fst (applyForces noDrag (\<lambda>_. 1 / 2) [exNodeB, exNodeP, exNodeC] (Some ''p'') True None) ! 2 = exNodeC"
  using applyForces_focus_mode_freeze [of noDrag "\<lambda>_. 1 / 2" "[exNodeB, exNodeP, exNodeC]" "Some ''p''" None]
  by (simp add: Let_def isDraggedNode_def inSubtree_def isFocusedNode_def focusedNodeOf_def nodeMap_get_def
        parentOfFocusedSubtaskOf_def isParentOfFocusedSubtask_def isChildOfFocused_def truthy_def
        noDrag_def exNodeB_def exNodeP_def exNodeC_def)

lemma placeLoop_length [simp]: "length (placeLoop p R len k cs) = length cs"
  by (induction cs arbitrary: k) simp_all

lemma placeLoop_nth:
  "i < length cs \<Longrightarrow> placeLoop p R len k cs ! i = placeChild p R len (k + i) (cs ! i)"
proof (induction cs arbitrary: k i)
  case Nil
  then show ?case by simp
next
  case (Cons c cs)
  show ?case
  proof (cases i)
    case 0
    then show ?thesis by simp
  next
    case (Suc j)
    then show ?thesis using Cons by simp
  qed
qed

lemma maxChildLoop_Max:
  "maxChildLoop cov m cs = Max (insert m (childCoverage cov ` set cs))"
proof (induction cs arbitrary: m)
  case Nil
  then show ?case by simp
next
  case (Cons c cs)
  let ?S = "childCoverage cov ` set cs"
  have fin: "finite ?S" by simp
  have "Max (insert (max m (childCoverage cov c)) ?S) = max (max m (childCoverage cov c)) (Max (insert (childCoverage cov c) ?S))"
  proof (cases "?S = {}")
    case True
    then show ?thesis by simp
  next
    case False
    then show ?thesis using fin by (simp add: max.assoc max.left_commute)
  qed
  also have "\<dots> = Max (insert m (insert (childCoverage cov c) ?S))"
    using fin by (simp add: max.assoc)
  finally show ?case using Cons by simp
qed

lemma orbitRadiusOf_eq:
  "orbitRadiusOf P M n = max (P + 15 + M) (real n * (2 * M + 30) / (2 * pi))"
  by (simp add: orbitRadiusOf_def Let_def ORBIT_GAP_def mult.commute)

subsection \<open>The claim about the focus layout\<close>

text \<open>
  Claim C3 (focus layout placement). For a focused node that has a node and a cloud, with
  \<open>N \<ge> 1\<close> children, one refresh computes the orbit radius
  \<open>max (parentCoverage + 15 + maxChildCoverage) (N * (2 * maxChildCoverage + 30) / (2 * pi))\<close>,
  where \<open>maxChildCoverage\<close> is the largest coverage radius among the children and \<open>parentCoverage\<close>
  that of the parent (each with its fallback when the measured value is \<open>0\<close>). In particular the
  radius is at least the density-guard term. Child \<open>i\<close> is put on that circle around the parent
  at the angle \<open>- pi / 2 + i * (2 * pi / N)\<close>, that is at equal steps of \<open>2 * pi / N\<close> from the
  top, and its velocity is set to zero.
\<close>

theorem refreshFocusLayout_placement:
  assumes "find (\<lambda>n. node_id n = node_id focusedNode) nodes = Some parentNode"
    and "children = filter (\<lambda>n. node_parentId n = Some (node_id focusedNode)) nodes"
    and "children \<noteq> []"
    and "cov (node_id parentNode) = Some parentRequired"
  shows "\<exists>L. refreshFocusLayout cov nodes focusedNode = Some L \<and>
           (let N = length children;
                maxChildCoverage = Max (insert 0 (childCoverage cov ` set children));
                parentCoverage = (if parentRequired = 0 then node_radius parentNode else parentRequired);
                orbitRadius = layout_orbitRadius L
            in orbitRadius = max (parentCoverage + 15 + maxChildCoverage)
                                 (real N * (2 * maxChildCoverage + 30) / (2 * pi)) \<and>
               orbitRadius \<ge> real N * (2 * maxChildCoverage + 30) / (2 * pi) \<and>
               length (layout_children L) = N \<and>
               (\<forall>i<N. layout_children L ! i =
                  (children ! i)\<lparr>node_x := node_x parentNode + cos (- pi / 2 + real i * (2 * pi / real N)) * orbitRadius,
                                 node_y := node_y parentNode + sin (- pi / 2 + real i * (2 * pi / real N)) * orbitRadius,
                                 node_vx := 0, node_vy := 0\<rparr>))"
proof -
  define M where "M = Max (insert 0 (childCoverage cov ` set children))"
  define P where "P = (if parentRequired = 0 then node_radius parentNode else parentRequired)"
  define N where "N = length children"
  define R where "R = orbitRadiusOf P M N"
  define placed where "placed = placeLoop parentNode R N 0 children"
  define L where "L = \<lparr>layout_children = placed,
             layout_positions = (node_id parentNode, node_x parentNode, node_y parentNode) #
                                map (\<lambda>c. (node_id c, node_x c, node_y c)) placed,
             layout_orbitRadius = R\<rparr>"
  have frame: "focusLayoutFrame cov parentNode children = Some L"
    using assms(4)
    by (simp add: focusLayoutFrame_def Let_def maxChildLoop_Max L_def placed_def R_def N_def P_def M_def)
  have res: "refreshFocusLayout cov nodes focusedNode = Some L"
    using assms(1,3) frame unfolding refreshFocusLayout_def assms(2) [symmetric] by (simp add: Let_def)
  have ang: "- pi / 2 + real i / real N * pi * 2 = - pi / 2 + real i * (2 * pi / real N)" for i
    by simp
  have place: "layout_children L ! i =
      (children ! i)\<lparr>node_x := node_x parentNode + cos (- pi / 2 + real i * (2 * pi / real N)) * R,
                     node_y := node_y parentNode + sin (- pi / 2 + real i * (2 * pi / real N)) * R,
                     node_vx := 0, node_vy := 0\<rparr>" if "i < N" for i
  proof -
    have "layout_children L ! i = placeChild parentNode R N i (children ! i)"
      using that by (simp add: L_def placed_def placeLoop_nth N_def)
    also have "\<dots> = (children ! i)\<lparr>node_x := node_x parentNode + cos (- pi / 2 + real i * (2 * pi / real N)) * R,
                     node_y := node_y parentNode + sin (- pi / 2 + real i * (2 * pi / real N)) * R,
                     node_vx := 0, node_vy := 0\<rparr>"
      unfolding placeChild_def Let_def ang ..
    finally show ?thesis .
  qed
  have Req: "R = max (P + 15 + M) (real N * (2 * M + 30) / (2 * pi))"
    by (simp only: R_def orbitRadiusOf_eq)
  have Rge: "R \<ge> real N * (2 * M + 30) / (2 * pi)"
    unfolding Req by (rule max.cobounded2)
  have len: "length (layout_children L) = N"
    by (simp add: L_def placed_def N_def)
  have orb: "layout_orbitRadius L = R" by (simp add: L_def)
  show ?thesis
  proof (intro exI [of _ L] conjI)
    show "refreshFocusLayout cov nodes focusedNode = Some L" by (rule res)
    show "let N = length children;
              maxChildCoverage = Max (insert 0 (childCoverage cov ` set children));
              parentCoverage = (if parentRequired = 0 then node_radius parentNode else parentRequired);
              orbitRadius = layout_orbitRadius L
          in orbitRadius = max (parentCoverage + 15 + maxChildCoverage)
                               (real N * (2 * maxChildCoverage + 30) / (2 * pi)) \<and>
             orbitRadius \<ge> real N * (2 * maxChildCoverage + 30) / (2 * pi) \<and>
             length (layout_children L) = N \<and>
             (\<forall>i<N. layout_children L ! i =
                (children ! i)\<lparr>node_x := node_x parentNode + cos (- pi / 2 + real i * (2 * pi / real N)) * orbitRadius,
                               node_y := node_y parentNode + sin (- pi / 2 + real i * (2 * pi / real N)) * orbitRadius,
                               node_vx := 0, node_vy := 0\<rparr>)"
      unfolding Let_def M_def [symmetric] P_def [symmetric] N_def [symmetric] orb
      using Req Rge len place by blast
  qed
qed

text \<open>The witness: a group of coverage radius 120 with five children of coverage radius 60.\<close>

theorem refreshFocusLayout_placement_witness:
  "\<exists>L. refreshFocusLayout exCov (exGroup # exKids) exGroup = Some L \<and>
        layout_orbitRadius L = max 195 (5 * 150 / (2 * pi)) \<and>
        195 \<le> layout_orbitRadius L \<and>
        length (layout_children L) = 5 \<and>
        layout_children L ! 0 = (exKid ''k1'')\<lparr>node_x := 100, node_y := 200 - layout_orbitRadius L,
                                                node_vx := 0, node_vy := 0\<rparr>"
proof -
  have f: "find (\<lambda>n. node_id n = node_id exGroup) (exGroup # exKids) = Some exGroup"
    by simp
  have c: "exKids = filter (\<lambda>n. node_parentId n = Some (node_id exGroup)) (exGroup # exKids)"
    by (simp add: exKids_def exKid_def exGroup_def)
  have ne: "exKids \<noteq> []" by (simp add: exKids_def)
  have cv: "exCov (node_id exGroup) = Some 120" by (simp add: exCov_def exGroup_def)
  have m: "Max (insert 0 (childCoverage exCov ` set exKids)) = 60"
    by (simp add: exKids_def exKid_def childCoverage_def exCov_def)
  obtain L where L: "refreshFocusLayout exCov (exGroup # exKids) exGroup = Some L"
     "layout_orbitRadius L = max (120 + 15 + 60) (real (length exKids) * (2 * 60 + 30) / (2 * pi))"
     "length (layout_children L) = length exKids"
     "\<forall>i<length exKids. layout_children L ! i =
         (exKids ! i)\<lparr>node_x := node_x exGroup + cos (- pi / 2 + real i * (2 * pi / real (length exKids))) * layout_orbitRadius L,
                      node_y := node_y exGroup + sin (- pi / 2 + real i * (2 * pi / real (length exKids))) * layout_orbitRadius L,
                      node_vx := 0, node_vy := 0\<rparr>"
    using refreshFocusLayout_placement [where focusedNode = exGroup and nodes = "exGroup # exKids"
        and parentNode = exGroup and children = exKids and cov = exCov and parentRequired = 120, OF f c ne cv]
    unfolding Let_def m by auto
  have len: "length exKids = 5" by (simp add: exKids_def)
  have k0: "layout_children L ! 0 = (exKid ''k1'')\<lparr>node_x := 100, node_y := 200 - layout_orbitRadius L,
                                                node_vx := 0, node_vy := 0\<rparr>"
    using L(4) len by (simp add: exKids_def exGroup_def)
  show ?thesis
    using L(1,2,3) len k0 by (intro exI [of _ L]) simp
qed

lemma map_of_find:
  "map_of (map (\<lambda>n. (f n, g n)) xs) k = map_option g (find (\<lambda>n. f n = k) xs)"
  by (induction xs) auto

lemma existingPositionsOf_find:
  "existingPositionsOf (Some prev) k =
     map_option (\<lambda>n. (node_x n, node_y n)) (find (\<lambda>m. node_id m = k) (rev prev))"
  by (simp add: existingPositionsOf_def map_of_find)

lemma subtaskNode_keeps:
  "keepsPos ex (subtaskNode ex tid tx ty r len k st) \<and> node_type (subtaskNode ex tid tx ty r len k st) = Subtask"
  by (auto simp: keepsPos_def subtaskNode_def Let_def split: option.splits)

lemma subtaskLoop_keeps:
  "n \<in> set (subtaskLoop ex tid tx ty r len k sts) \<Longrightarrow> keepsPos ex n \<and> node_type n = Subtask"
  by (induction sts arbitrary: k) (auto simp: subtaskNode_keeps)

lemma taskLoop_keeps:
  "n \<in> set (fst (taskLoop rnd ex fn mid mx my tc j tasks rc)) \<Longrightarrow> keepsPos ex n \<and> node_type n \<noteq> Milestone"
proof (induction tasks arbitrary: j rc)
  case Nil
  then show ?case by simp
next
  case (Cons task rest)
  define radius where "radius = TASK_RADIUS_BASE +
      real (length (filter (\<lambda>st. \<not> subtask_completed st) (task_subtasks task))) * TASK_RADIUS_PER_SUBTASK"
  obtain tx ty rc1 where pos:
    "(case ex (task_id task) of
        Some (ex, ey) \<Rightarrow> (ex, ey, rc)
      | None \<Rightarrow>
          (let taskAngle = (if tc > 1 then (real j / real tc) * pi * 2 else 0);
               taskOrbitRadius = TASK_ORBIT_RADIUS_MIN + rnd rc * (TASK_ORBIT_RADIUS_MAX - TASK_ORBIT_RADIUS_MIN)
           in (mx + cos taskAngle * taskOrbitRadius, my + sin taskAngle * taskOrbitRadius, rc + 1))) = (tx, ty, rc1)"
    by (metis prod_cases3)
  have kp: "\<And>p. ex (task_id task) = Some p \<Longrightarrow> (tx, ty) = p"
    using pos by (auto split: option.splits)
  obtain restNodes rc2 where rest: "taskLoop rnd ex fn mid mx my tc (j + 1) rest rc1 = (restNodes, rc2)"
    by (cases "taskLoop rnd ex fn mid mx my tc (j + 1) rest rc1")
  define taskNode where "taskNode = \<lparr>node_id = task_id task, node_type = Task, node_x = tx, node_y = ty,
                      node_vx = 0, node_vy = 0, node_radius = radius, node_parentId = Some mid\<rparr>"
  have "n = taskNode \<or> n \<in> set (subtaskLoop ex (task_id task) tx ty radius (length (task_subtasks task)) 0 (task_subtasks task))
        \<or> n \<in> set restNodes"
    using Cons.prems pos rest
    by (auto simp: Let_def radius_def taskNode_def split: if_splits)
  moreover have "keepsPos ex taskNode \<and> node_type taskNode \<noteq> Milestone"
    using kp by (auto simp: keepsPos_def taskNode_def)
  moreover have "n \<in> set restNodes \<Longrightarrow> keepsPos ex n \<and> node_type n \<noteq> Milestone"
    using Cons.IH [of "j + 1" rc1] rest by simp
  ultimately show ?case
    using subtaskLoop_keeps by fastforce
qed

lemma milestoneLoop_keeps:
  "n \<in> set (fst (milestoneLoop rnd ex fn w h mc i ms rc)) \<Longrightarrow> node_type n \<noteq> Milestone \<Longrightarrow> keepsPos ex n"
proof (induction ms arbitrary: i rc)
  case Nil
  then show ?case by simp
next
  case (Cons m rest)
  obtain mx my where pos:
    "(case (milestone_x m, milestone_y m) of
        (Some sx, Some sy) \<Rightarrow> (sx, sy)
      | _ \<Rightarrow>
          (let angle = (if mc > 1 then (real i / real mc) * pi * 2 - pi / 2 else 0);
               orbitRadius = min w h * (3 / 10)
           in (if mc > 1 then w / 2 + cos angle * orbitRadius else w / 2,
               if mc > 1 then h / 2 + sin angle * orbitRadius else h / 2))) = (mx, my)"
    by (metis surj_pair)
  obtain taskNodes rc1 where tl: "taskLoop rnd ex fn (milestone_id m) mx my
        (length (milestone_tasks m)) 0 (milestone_tasks m) rc = (taskNodes, rc1)"
    by (metis surj_pair)
  obtain restNodes rc2 where rest: "milestoneLoop rnd ex fn w h mc (i + 1) rest rc1 = (restNodes, rc2)"
    by (metis surj_pair)
  have "node_type n = Milestone \<or> n \<in> set taskNodes \<or> n \<in> set restNodes"
    using Cons.prems(1) pos tl rest by (auto simp: Let_def)
  moreover have "n \<in> set taskNodes \<Longrightarrow> keepsPos ex n"
    using taskLoop_keeps [of n rnd ex fn "milestone_id m" mx my "length (milestone_tasks m)" 0 "milestone_tasks m" rc] tl
    by simp
  moreover have "n \<in> set restNodes \<Longrightarrow> keepsPos ex n"
    using Cons.IH [of "i + 1" rc1] rest Cons.prems(2) by simp
  ultimately show ?case using Cons.prems(2) by blast
qed

lemma taskLoop_det:
  assumes "\<forall>t\<in>set tasks. ex (task_id t) \<noteq> None"
  shows "taskLoop rnd ex fn mid mx my tc j tasks rc = (fst (taskLoop rnd' ex fn mid mx my tc j tasks rc'), rc)"
  using assms
proof (induction tasks arbitrary: j)
  case Nil
  then show ?case by simp
next
  case (Cons task rest)
  obtain px py where p: "ex (task_id task) = Some (px, py)"
    using Cons.prems by auto
  have ih: "taskLoop rnd ex fn mid mx my tc (j + 1) rest rc =
              (fst (taskLoop rnd' ex fn mid mx my tc (j + 1) rest rc'), rc)"
    using Cons.IH [of "j + 1"] Cons.prems by simp
  obtain restNodes rcx where r': "taskLoop rnd' ex fn mid mx my tc (j + 1) rest rc' = (restNodes, rcx)"
    by (metis surj_pair)
  show ?case
    using p ih r' by (simp add: Let_def)
qed

lemma milestoneLoop_det:
  assumes "\<forall>m\<in>set ms. \<forall>t\<in>set (milestone_tasks m). ex (task_id t) \<noteq> None"
  shows "milestoneLoop rnd ex fn w h mc i ms rc = (fst (milestoneLoop rnd' ex fn w h mc i ms rc'), rc)"
  using assms
proof (induction ms arbitrary: i)
  case Nil
  then show ?case by simp
next
  case (Cons m rest)
  obtain mx my where pos:
    "(case (milestone_x m, milestone_y m) of
        (Some sx, Some sy) \<Rightarrow> (sx, sy)
      | _ \<Rightarrow>
          (let angle = (if mc > 1 then (real i / real mc) * pi * 2 - pi / 2 else 0);
               orbitRadius = min w h * (3 / 10)
           in (if mc > 1 then w / 2 + cos angle * orbitRadius else w / 2,
               if mc > 1 then h / 2 + sin angle * orbitRadius else h / 2))) = (mx, my)"
    by (metis surj_pair)
  have tl: "taskLoop rnd ex fn (milestone_id m) mx my (length (milestone_tasks m)) 0 (milestone_tasks m) rc =
        (fst (taskLoop rnd' ex fn (milestone_id m) mx my (length (milestone_tasks m)) 0 (milestone_tasks m) rc'), rc)"
    using Cons.prems by (intro taskLoop_det) simp
  obtain tn rcy where tl': "taskLoop rnd' ex fn (milestone_id m) mx my (length (milestone_tasks m)) 0 (milestone_tasks m) rc' = (tn, rcy)"
    by (metis surj_pair)
  have tl'': "taskLoop rnd' ex fn (milestone_id m) mx my (length (milestone_tasks m)) 0 (milestone_tasks m) rc' = (tn, rc')"
    using taskLoop_det [of "milestone_tasks m" ex rnd' fn "milestone_id m" mx my "length (milestone_tasks m)" 0 rc' rnd' rc']
      Cons.prems tl' by simp
  have ih: "milestoneLoop rnd ex fn w h mc (i + 1) rest rc =
              (fst (milestoneLoop rnd' ex fn w h mc (i + 1) rest rc'), rc)"
    using Cons.IH [of "i + 1"] Cons.prems by simp
  obtain restNodes rcx where r': "milestoneLoop rnd' ex fn w h mc (i + 1) rest rc' = (restNodes, rcx)"
    by (metis surj_pair)
  show ?case
    using pos tl tl'' tl' ih r' by (simp add: Let_def)
qed

lemma existingPositionsOf_dom:
  "k \<in> node_id ` set prev \<Longrightarrow> existingPositionsOf (Some prev) k \<noteq> None"
  by (auto simp: existingPositionsOf_find find_None_iff)

lemma milestoneLoop_unfold:
  "milestoneLoop rnd ex fn w h mc i (m # rest) rc =
     (let pos = milestonePosition w h mc i m;
          tl = taskLoop rnd ex fn (milestone_id m) (fst pos) (snd pos) (length (milestone_tasks m)) 0 (milestone_tasks m) rc;
          rl = milestoneLoop rnd ex fn w h mc (i + 1) rest (snd tl)
      in (milestoneNodeAt w h mc i m # fst tl @ fst rl, snd rl))"
  by (cases "milestone_x m"; cases "milestone_y m")
     (simp_all add: milestonePosition_def milestoneNodeAt_def Let_def split: prod.splits)

lemma milestoneNodeAt_type [simp]: "node_type (milestoneNodeAt w h mc i m) = Milestone"
  by (simp add: milestoneNodeAt_def)

lemma taskLoop_unfold:
  "taskLoop rnd ex fn mid mx my tc j (task # rest) rc =
     (let taskRadius = TASK_RADIUS_BASE +
              real (length (filter (\<lambda>st. \<not> subtask_completed st) (task_subtasks task))) * TASK_RADIUS_PER_SUBTASK;
          orbit = TASK_ORBIT_RADIUS_MIN + rnd rc * (TASK_ORBIT_RADIUS_MAX - TASK_ORBIT_RADIUS_MIN);
          pos = (case ex (task_id task) of
                   Some p \<Rightarrow> p
                 | None \<Rightarrow> (mx + cos (taskAngleOf tc j) * orbit, my + sin (taskAngleOf tc j) * orbit));
          rc1 = (case ex (task_id task) of Some p \<Rightarrow> rc | None \<Rightarrow> rc + 1);
          taskNode = \<lparr>node_id = task_id task, node_type = Task, node_x = fst pos, node_y = snd pos,
                      node_vx = 0, node_vy = 0, node_radius = taskRadius, node_parentId = Some mid\<rparr>;
          subs = (if (case fn of None \<Rightarrow> False | Some f \<Rightarrow> node_id f = task_id task) \<or>
                     (case fn of None \<Rightarrow> False
                      | Some f \<Rightarrow> node_type f = Subtask \<and> list_ex (\<lambda>st. subtask_id st = node_id f) (task_subtasks task))
                  then subtaskLoop ex (task_id task) (fst pos) (snd pos) taskRadius
                         (length (task_subtasks task)) 0 (task_subtasks task)
                  else []);
          rl = taskLoop rnd ex fn mid mx my tc (j + 1) rest rc1
      in (taskNode # subs @ fst rl, snd rl))"
  by (simp add: taskAngleOf_def Let_def split: prod.splits option.splits)

lemma subtaskLoop_type: "n \<in> set (subtaskLoop ex tid tx ty r len k sts) \<Longrightarrow> node_type n = Subtask"
  using subtaskLoop_keeps by blast

lemma taskLoop_rc:
  "rc \<le> snd (taskLoop rnd ex fn mid mx my tc j tasks rc) \<and>
   snd (taskLoop rnd ex fn mid mx my tc j tasks rc) \<le> rc + length tasks"
proof (induction tasks arbitrary: j rc)
  case Nil
  then show ?case by simp
next
  case (Cons task rest)
  define rc1 where "rc1 = (case ex (task_id task) of Some p \<Rightarrow> rc | None \<Rightarrow> rc + 1)"
  have r: "rc \<le> rc1" "rc1 \<le> rc + 1" by (simp_all add: rc1_def split: option.splits)
  have e: "snd (taskLoop rnd ex fn mid mx my tc j (task # rest) rc) =
        snd (taskLoop rnd ex fn mid mx my tc (j + 1) rest rc1)"
    unfolding taskLoop_unfold Let_def rc1_def by simp
  show ?case
    unfolding e using Cons.IH [where j = "j + 1" and rc = rc1] r by simp
qed

lemma taskLoop_new:
  assumes "n \<in> set (fst (taskLoop rnd ex fn mid mx my tc j tasks rc))"
    and "node_type n = Task" and "ex (node_id n) = None"
  shows "\<exists>q rc'. q < length tasks \<and> rc \<le> rc' \<and> rc' < rc + length tasks \<and>
           node_id n = task_id (tasks ! q) \<and> node_parentId n = Some mid \<and>
           node_x n = mx + cos (taskAngleOf tc (j + q)) *
                        (TASK_ORBIT_RADIUS_MIN + rnd rc' * (TASK_ORBIT_RADIUS_MAX - TASK_ORBIT_RADIUS_MIN)) \<and>
           node_y n = my + sin (taskAngleOf tc (j + q)) *
                        (TASK_ORBIT_RADIUS_MIN + rnd rc' * (TASK_ORBIT_RADIUS_MAX - TASK_ORBIT_RADIUS_MIN))"
  using assms
proof (induction tasks arbitrary: j rc)
  case Nil
  then show ?case by simp
next
  case (Cons task rest)
  define taskRadius where "taskRadius = TASK_RADIUS_BASE +
      real (length (filter (\<lambda>st. \<not> subtask_completed st) (task_subtasks task))) * TASK_RADIUS_PER_SUBTASK"
  define orbit where "orbit = TASK_ORBIT_RADIUS_MIN + rnd rc * (TASK_ORBIT_RADIUS_MAX - TASK_ORBIT_RADIUS_MIN)"
  define pos where "pos = (case ex (task_id task) of
                   Some p \<Rightarrow> p
                 | None \<Rightarrow> (mx + cos (taskAngleOf tc j) * orbit, my + sin (taskAngleOf tc j) * orbit))"
  define rc1 where "rc1 = (case ex (task_id task) of Some p \<Rightarrow> rc | None \<Rightarrow> rc + 1)"
  define taskNode where "taskNode = \<lparr>node_id = task_id task, node_type = Task, node_x = fst pos, node_y = snd pos,
                      node_vx = 0, node_vy = 0, node_radius = taskRadius, node_parentId = Some mid\<rparr>"
  define subs where "subs = (if (case fn of None \<Rightarrow> False | Some f \<Rightarrow> node_id f = task_id task) \<or>
                     (case fn of None \<Rightarrow> False
                      | Some f \<Rightarrow> node_type f = Subtask \<and> list_ex (\<lambda>st. subtask_id st = node_id f) (task_subtasks task))
                  then subtaskLoop ex (task_id task) (fst pos) (snd pos) taskRadius
                         (length (task_subtasks task)) 0 (task_subtasks task)
                  else [])"
  have unf: "fst (taskLoop rnd ex fn mid mx my tc j (task # rest) rc) =
             taskNode # subs @ fst (taskLoop rnd ex fn mid mx my tc (j + 1) rest rc1)"
    unfolding taskLoop_unfold Let_def taskNode_def subs_def pos_def orbit_def rc1_def taskRadius_def by simp
  have r: "rc \<le> rc1" "rc1 \<le> rc + 1" by (simp_all add: rc1_def split: option.splits)
  have nsub: "n \<notin> set subs"
    using Cons.prems(2) subtaskLoop_type [of n] by (auto simp: subs_def split: if_splits)
  consider (here) "n = taskNode" | (later) "n \<in> set (fst (taskLoop rnd ex fn mid mx my tc (j + 1) rest rc1))"
    using Cons.prems(1) nsub unfolding unf by auto
  then show ?case
  proof cases
    case here
    then have none: "ex (task_id task) = None" using Cons.prems(3) by (simp add: taskNode_def)
    have "node_x n = mx + cos (taskAngleOf tc j) * orbit" "node_y n = my + sin (taskAngleOf tc j) * orbit"
         "node_id n = task_id task" "node_parentId n = Some mid"
      using here none by (simp_all add: taskNode_def pos_def)
    then show ?thesis
      unfolding orbit_def by (intro exI [of _ 0] exI [of _ rc]) simp
  next
    case later
    obtain q rc' where q: "q < length rest" "rc1 \<le> rc'" "rc' < rc1 + length rest"
        "node_id n = task_id (rest ! q)" "node_parentId n = Some mid"
        "node_x n = mx + cos (taskAngleOf tc (j + 1 + q)) *
                        (TASK_ORBIT_RADIUS_MIN + rnd rc' * (TASK_ORBIT_RADIUS_MAX - TASK_ORBIT_RADIUS_MIN))"
        "node_y n = my + sin (taskAngleOf tc (j + 1 + q)) *
                        (TASK_ORBIT_RADIUS_MIN + rnd rc' * (TASK_ORBIT_RADIUS_MAX - TASK_ORBIT_RADIUS_MIN))"
      using Cons.IH [OF later Cons.prems(2,3)] by blast
    show ?thesis
      using q r by (intro exI [of _ "Suc q"] exI [of _ rc']) simp
  qed
qed

lemma taskLoop_type: "n \<in> set (fst (taskLoop rnd ex fn mid mx my tc j tasks rc)) \<Longrightarrow> node_type n \<noteq> Milestone"
  using taskLoop_keeps by blast

lemma milestoneLoop_rc:
  "rc \<le> snd (milestoneLoop rnd ex fn w h mc i ms rc) \<and>
   snd (milestoneLoop rnd ex fn w h mc i ms rc) \<le> rc + taskCountOf ms"
proof (induction ms arbitrary: i rc)
  case Nil
  then show ?case by (simp add: taskCountOf_def)
next
  case (Cons m rest)
  define pos where "pos = milestonePosition w h mc i m"
  define tl where "tl = taskLoop rnd ex fn (milestone_id m) (fst pos) (snd pos) (length (milestone_tasks m)) 0 (milestone_tasks m) rc"
  have t: "rc \<le> snd tl" "snd tl \<le> rc + length (milestone_tasks m)"
    using taskLoop_rc [of rc rnd ex fn "milestone_id m" "fst pos" "snd pos" "length (milestone_tasks m)" 0 "milestone_tasks m"]
    by (simp_all add: tl_def)
  have e: "snd (milestoneLoop rnd ex fn w h mc i (m # rest) rc) =
        snd (milestoneLoop rnd ex fn w h mc (i + 1) rest (snd tl))"
    unfolding milestoneLoop_unfold Let_def tl_def pos_def by simp
  have tc: "taskCountOf (m # rest) = length (milestone_tasks m) + taskCountOf rest"
    by (simp add: taskCountOf_def)
  show ?case
    unfolding e tc using Cons.IH [where i = "i + 1" and rc = "snd tl"] t by simp
qed

lemma milestoneLoop_milestones:
  "filter (\<lambda>n. node_type n = Milestone) (fst (milestoneLoop rnd ex fn w h mc i ms rc)) =
     map (\<lambda>(k, m). milestoneNodeAt w h mc k m) (zip [i..<i + length ms] ms)"
proof (induction ms arbitrary: i rc)
  case Nil
  then show ?case by simp
next
  case (Cons m rest)
  define pos where "pos = milestonePosition w h mc i m"
  define tl where "tl = taskLoop rnd ex fn (milestone_id m) (fst pos) (snd pos) (length (milestone_tasks m)) 0 (milestone_tasks m) rc"
  have unf: "fst (milestoneLoop rnd ex fn w h mc i (m # rest) rc) =
             milestoneNodeAt w h mc i m # fst tl @ fst (milestoneLoop rnd ex fn w h mc (i + 1) rest (snd tl))"
    unfolding milestoneLoop_unfold Let_def tl_def pos_def by simp
  have t: "filter (\<lambda>n. node_type n = Milestone) (fst tl) = []"
    unfolding tl_def filter_empty_conv using taskLoop_type by blast
  have up: "[i..<i + length (m # rest)] = i # [i + 1..<i + 1 + length rest]"
    by (simp add: upt_rec)
  show ?case
    unfolding unf up using Cons.IH [where i = "i + 1" and rc = "snd tl"] t by simp
qed

lemma milestoneLoop_new:
  assumes "n \<in> set (fst (milestoneLoop rnd ex fn w h mc i ms rc))"
    and "node_type n = Task" and "ex (node_id n) = None"
  shows "\<exists>p q rc'. p < length ms \<and> q < length (milestone_tasks (ms ! p)) \<and> rc \<le> rc' \<and> rc' < rc + taskCountOf ms \<and>
           node_id n = task_id (milestone_tasks (ms ! p) ! q) \<and>
           node_parentId n = Some (milestone_id (ms ! p)) \<and>
           node_x n = fst (milestonePosition w h mc (i + p) (ms ! p)) +
                      cos (taskAngleOf (length (milestone_tasks (ms ! p))) q) *
                        (TASK_ORBIT_RADIUS_MIN + rnd rc' * (TASK_ORBIT_RADIUS_MAX - TASK_ORBIT_RADIUS_MIN)) \<and>
           node_y n = snd (milestonePosition w h mc (i + p) (ms ! p)) +
                      sin (taskAngleOf (length (milestone_tasks (ms ! p))) q) *
                        (TASK_ORBIT_RADIUS_MIN + rnd rc' * (TASK_ORBIT_RADIUS_MAX - TASK_ORBIT_RADIUS_MIN))"
  using assms
proof (induction ms arbitrary: i rc)
  case Nil
  then show ?case by simp
next
  case (Cons m rest)
  define pos where "pos = milestonePosition w h mc i m"
  define tl where "tl = taskLoop rnd ex fn (milestone_id m) (fst pos) (snd pos) (length (milestone_tasks m)) 0 (milestone_tasks m) rc"
  have unf: "fst (milestoneLoop rnd ex fn w h mc i (m # rest) rc) =
             milestoneNodeAt w h mc i m # fst tl @ fst (milestoneLoop rnd ex fn w h mc (i + 1) rest (snd tl))"
    unfolding milestoneLoop_unfold Let_def tl_def pos_def by simp
  have t: "rc \<le> snd tl" "snd tl \<le> rc + length (milestone_tasks m)"
    using taskLoop_rc [of rc rnd ex fn "milestone_id m" "fst pos" "snd pos" "length (milestone_tasks m)" 0 "milestone_tasks m"]
    by (simp_all add: tl_def)
  have tc: "taskCountOf (m # rest) = length (milestone_tasks m) + taskCountOf rest"
    by (simp add: taskCountOf_def)
  have "n \<noteq> milestoneNodeAt w h mc i m"
    using Cons.prems(2) by (auto simp: milestoneNodeAt_def)
  then consider (here) "n \<in> set (fst tl)"
    | (later) "n \<in> set (fst (milestoneLoop rnd ex fn w h mc (i + 1) rest (snd tl)))"
    using Cons.prems(1) unfolding unf by auto
  then show ?case
  proof cases
    case here
    obtain q rc' where q: "q < length (milestone_tasks m)" "rc \<le> rc'" "rc' < rc + length (milestone_tasks m)"
        "node_id n = task_id (milestone_tasks m ! q)" "node_parentId n = Some (milestone_id m)"
        "node_x n = fst pos + cos (taskAngleOf (length (milestone_tasks m)) (0 + q)) *
                        (TASK_ORBIT_RADIUS_MIN + rnd rc' * (TASK_ORBIT_RADIUS_MAX - TASK_ORBIT_RADIUS_MIN))"
        "node_y n = snd pos + sin (taskAngleOf (length (milestone_tasks m)) (0 + q)) *
                        (TASK_ORBIT_RADIUS_MIN + rnd rc' * (TASK_ORBIT_RADIUS_MAX - TASK_ORBIT_RADIUS_MIN))"
      using taskLoop_new [OF here [unfolded tl_def] Cons.prems(2,3)] by blast
    show ?thesis
      using q unfolding tc pos_def by (intro exI [of _ 0] exI [of _ q] exI [of _ rc']) simp
  next
    case later
    obtain p q rc' where q: "p < length rest" "q < length (milestone_tasks (rest ! p))"
        "snd tl \<le> rc'" "rc' < snd tl + taskCountOf rest"
        "node_id n = task_id (milestone_tasks (rest ! p) ! q)"
        "node_parentId n = Some (milestone_id (rest ! p))"
        "node_x n = fst (milestonePosition w h mc (i + 1 + p) (rest ! p)) +
                      cos (taskAngleOf (length (milestone_tasks (rest ! p))) q) *
                        (TASK_ORBIT_RADIUS_MIN + rnd rc' * (TASK_ORBIT_RADIUS_MAX - TASK_ORBIT_RADIUS_MIN))"
        "node_y n = snd (milestonePosition w h mc (i + 1 + p) (rest ! p)) +
                      sin (taskAngleOf (length (milestone_tasks (rest ! p))) q) *
                        (TASK_ORBIT_RADIUS_MIN + rnd rc' * (TASK_ORBIT_RADIUS_MAX - TASK_ORBIT_RADIUS_MIN))"
      using Cons.IH [OF later Cons.prems(2,3)] by blast
    show ?thesis
      using q t unfolding tc by (intro exI [of _ "Suc p"] exI [of _ q] exI [of _ rc']) simp
  qed
qed

lemma existingPositionsOf_None:
  "k \<notin> node_id ` set prev \<Longrightarrow> existingPositionsOf (Some prev) k = None"
  by (auto simp: existingPositionsOf_find find_None_iff)

subsection \<open>The claim about the node graph builder\<close>

text \<open>
  Claim C8, as amended. Every task or subtask node of the output whose id occurs in
  \<open>previousNodes\<close> has the position of the last previous node with that id. The milestone
  nodes of the output are, in order, one node per milestone at the milestone's stored
  coordinates, or on the circle layout when a coordinate is missing, whatever \<open>existingNodes\<close>
  holds and whatever \<open>Math.random()\<close> returns. A task node whose id does not occur in
  \<open>previousNodes\<close> lies around the position of its milestone at the angle of its index and at
  the orbit radius \<open>TASK_ORBIT_RADIUS_MIN + r * (TASK_ORBIT_RADIUS_MAX - TASK_ORBIT_RADIUS_MIN)\<close>,
  where \<open>r\<close> is one of the draws of \<open>Math.random()\<close> of the call (there are at most as many
  draws as tasks). When every task of the tree occurs in \<open>previousNodes\<close>, the output does not
  depend on \<open>Math.random()\<close>: two calls with the same arguments return the same nodes.
\<close>

theorem createNodes_reconciles_positions:
  "(\<forall>n\<in>set (createNodes rnd milestones width height focusedNode (Some previousNodes)).
      \<forall>n'. node_type n \<noteq> Milestone \<and>
           find (\<lambda>m. node_id m = node_id n) (rev previousNodes) = Some n' \<longrightarrow>
           node_x n = node_x n' \<and> node_y n = node_y n') \<and>
   filter (\<lambda>n. node_type n = Milestone) (createNodes rnd milestones width height focusedNode existingNodes) =
     map (\<lambda>(i, m). milestoneNodeAt width height (length milestones) i m) (enumerate 0 milestones) \<and>
   (\<forall>n\<in>set (createNodes rnd milestones width height focusedNode (Some previousNodes)).
      node_type n = Task \<and> node_id n \<notin> node_id ` set previousNodes \<longrightarrow>
      (\<exists>p q rc. p < length milestones \<and> q < length (milestone_tasks (milestones ! p)) \<and>
         rc < taskCountOf milestones \<and>
         node_id n = task_id (milestone_tasks (milestones ! p) ! q) \<and>
         node_parentId n = Some (milestone_id (milestones ! p)) \<and>
         node_x n = fst (milestonePosition width height (length milestones) p (milestones ! p)) +
                    cos (taskAngleOf (length (milestone_tasks (milestones ! p))) q) *
                      (TASK_ORBIT_RADIUS_MIN + rnd rc * (TASK_ORBIT_RADIUS_MAX - TASK_ORBIT_RADIUS_MIN)) \<and>
         node_y n = snd (milestonePosition width height (length milestones) p (milestones ! p)) +
                    sin (taskAngleOf (length (milestone_tasks (milestones ! p))) q) *
                      (TASK_ORBIT_RADIUS_MIN + rnd rc * (TASK_ORBIT_RADIUS_MAX - TASK_ORBIT_RADIUS_MIN)))) \<and>
   ((\<forall>m\<in>set milestones. \<forall>t\<in>set (milestone_tasks m). task_id t \<in> node_id ` set previousNodes) \<longrightarrow>
      createNodes rnd milestones width height focusedNode (Some previousNodes) =
      createNodes rnd' milestones width height focusedNode (Some previousNodes))"
proof (intro conjI ballI allI impI)
  fix n n'
  assume n: "n \<in> set (createNodes rnd milestones width height focusedNode (Some previousNodes))"
    and h: "node_type n \<noteq> Milestone \<and> find (\<lambda>m. node_id m = node_id n) (rev previousNodes) = Some n'"
  have "keepsPos (existingPositionsOf (Some previousNodes)) n"
    using n h by (auto simp: createNodes_def intro: milestoneLoop_keeps)
  moreover have "existingPositionsOf (Some previousNodes) (node_id n) = Some (node_x n', node_y n')"
    using h by (simp add: existingPositionsOf_find)
  ultimately show "node_x n = node_x n'" and "node_y n = node_y n'"
    by (auto simp: keepsPos_def)
next
  show "filter (\<lambda>n. node_type n = Milestone) (createNodes rnd milestones width height focusedNode existingNodes) =
     map (\<lambda>(i, m). milestoneNodeAt width height (length milestones) i m) (enumerate 0 milestones)"
    unfolding createNodes_def milestoneLoop_milestones enumerate_eq_zip by simp
next
  fix n
  assume n: "n \<in> set (createNodes rnd milestones width height focusedNode (Some previousNodes))"
    and h: "node_type n = Task \<and> node_id n \<notin> node_id ` set previousNodes"
  have none: "existingPositionsOf (Some previousNodes) (node_id n) = None"
    using h by (intro existingPositionsOf_None) simp
  have n': "n \<in> set (fst (milestoneLoop rnd (existingPositionsOf (Some previousNodes)) focusedNode width height
            (length milestones) 0 milestones 0))"
    using n by (simp add: createNodes_def)
  show "\<exists>p q rc. p < length milestones \<and> q < length (milestone_tasks (milestones ! p)) \<and>
         rc < taskCountOf milestones \<and>
         node_id n = task_id (milestone_tasks (milestones ! p) ! q) \<and>
         node_parentId n = Some (milestone_id (milestones ! p)) \<and>
         node_x n = fst (milestonePosition width height (length milestones) p (milestones ! p)) +
                    cos (taskAngleOf (length (milestone_tasks (milestones ! p))) q) *
                      (TASK_ORBIT_RADIUS_MIN + rnd rc * (TASK_ORBIT_RADIUS_MAX - TASK_ORBIT_RADIUS_MIN)) \<and>
         node_y n = snd (milestonePosition width height (length milestones) p (milestones ! p)) +
                    sin (taskAngleOf (length (milestone_tasks (milestones ! p))) q) *
                      (TASK_ORBIT_RADIUS_MIN + rnd rc * (TASK_ORBIT_RADIUS_MAX - TASK_ORBIT_RADIUS_MIN))"
    using milestoneLoop_new [OF n' _ none] h by simp
next
  assume "\<forall>m\<in>set milestones. \<forall>t\<in>set (milestone_tasks m). task_id t \<in> node_id ` set previousNodes"
  then have "\<forall>m\<in>set milestones. \<forall>t\<in>set (milestone_tasks m).
               existingPositionsOf (Some previousNodes) (task_id t) \<noteq> None"
    using existingPositionsOf_dom by blast
  then show "createNodes rnd milestones width height focusedNode (Some previousNodes) =
             createNodes rnd' milestones width height focusedNode (Some previousNodes)"
    unfolding createNodes_def
    using milestoneLoop_det [of milestones "existingPositionsOf (Some previousNodes)" rnd focusedNode width height
        "length milestones" 0 0 rnd' 0]
    by simp
qed

text \<open>
  The witness: the tree of one milestone stored at \<open>(0, 0)\<close> with one task. With both nodes
  in \<open>previousNodes\<close> the task keeps \<open>(7, 9)\<close>, the milestone is at \<open>(0, 0)\<close> although its
  previous node is at \<open>(5, 5)\<close>, and the draws do not matter; with the task missing from
  \<open>previousNodes\<close> and the draw \<open>1/2\<close> it is placed at \<open>(140, 0)\<close>.
\<close>

theorem createNodes_reconciles_positions_witness:
  "node_x (createNodes (\<lambda>_. 0) exTree 800 600 None (Some [exPrevM, exPrevT]) ! 1) = 7 \<and>
   node_y (createNodes (\<lambda>_. 0) exTree 800 600 None (Some [exPrevM, exPrevT]) ! 1) = 9 \<and>
   createNodes (\<lambda>_. 0) exTree 800 600 None (Some [exPrevM, exPrevT]) =
   createNodes (\<lambda>_. 1 / 2) exTree 800 600 None (Some [exPrevM, exPrevT]) \<and>
   filter (\<lambda>n. node_type n = Milestone) (createNodes (\<lambda>_. 0) exTree 800 600 None (Some [exPrevM, exPrevT])) =
     [exPrevM\<lparr>node_x := 0, node_y := 0\<rparr>] \<and>
   node_x (createNodes (\<lambda>_. 1 / 2) exTree 800 600 None (Some [exPrevM]) ! 1) = 140 \<and>
   node_y (createNodes (\<lambda>_. 1 / 2) exTree 800 600 None (Some [exPrevM]) ! 1) = 0"
proof -
  have n: "createNodes (\<lambda>_. 0) exTree 800 600 None (Some [exPrevM, exPrevT]) ! 1
             \<in> set (createNodes (\<lambda>_. 0) exTree 800 600 None (Some [exPrevM, exPrevT]))"
    by (simp add: createNodes_def exTree_def existingPositionsOf_def exPrevM_def exPrevT_def Let_def)
  have t: "node_type (createNodes (\<lambda>_. 0) exTree 800 600 None (Some [exPrevM, exPrevT]) ! 1) \<noteq> Milestone"
          "node_id (createNodes (\<lambda>_. 0) exTree 800 600 None (Some [exPrevM, exPrevT]) ! 1) = ''t''"
    by (simp_all add: createNodes_def exTree_def existingPositionsOf_def exPrevM_def exPrevT_def Let_def)
  have f: "find (\<lambda>m. node_id m = ''t'') (rev [exPrevM, exPrevT]) = Some exPrevT"
    by (simp add: exPrevM_def exPrevT_def)
  have d: "\<forall>m\<in>set exTree. \<forall>t\<in>set (milestone_tasks m). task_id t \<in> node_id ` set [exPrevM, exPrevT]"
    by (simp add: exTree_def exPrevM_def exPrevT_def)
  have n2: "createNodes (\<lambda>_. 1 / 2) exTree 800 600 None (Some [exPrevM]) ! 1
             \<in> set (createNodes (\<lambda>_. 1 / 2) exTree 800 600 None (Some [exPrevM]))"
    by (simp add: createNodes_def exTree_def existingPositionsOf_def exPrevM_def Let_def)
  have t2: "node_type (createNodes (\<lambda>_. 1 / 2) exTree 800 600 None (Some [exPrevM]) ! 1) = Task"
           "node_id (createNodes (\<lambda>_. 1 / 2) exTree 800 600 None (Some [exPrevM]) ! 1) \<notin> node_id ` set [exPrevM]"
    by (simp_all add: createNodes_def exTree_def existingPositionsOf_def exPrevM_def Let_def)
  have pos: "milestonePosition 800 600 (length exTree) 0 (exTree ! 0) = (0, 0)"
    by (simp add: milestonePosition_def exTree_def)
  have sz: "length exTree = 1" "length (milestone_tasks (exTree ! 0)) = 1" "taskCountOf exTree = 1"
    by (simp_all add: exTree_def taskCountOf_def)
  have m: "map (\<lambda>(i, m). milestoneNodeAt 800 600 (length exTree) i m) (enumerate 0 exTree) =
           [exPrevM\<lparr>node_x := 0, node_y := 0\<rparr>]"
    by (simp add: exTree_def milestoneNodeAt_def milestonePosition_def exPrevM_def MILESTONE_RADIUS_def)
  note A = createNodes_reconciles_positions [where rnd = "\<lambda>_. 0" and milestones = exTree and width = 800
      and height = 600 and focusedNode = None and previousNodes = "[exPrevM, exPrevT]" and rnd' = "\<lambda>_. 1 / 2"
      and existingNodes = "Some [exPrevM, exPrevT]"]
  note B = createNodes_reconciles_positions [where rnd = "\<lambda>_. 1 / 2" and milestones = exTree and width = 800
      and height = 600 and focusedNode = None and previousNodes = "[exPrevM]"
      and existingNodes = "Some [exPrevM]"]
  have "\<exists>p q rc. p < length exTree \<and> q < length (milestone_tasks (exTree ! p)) \<and> rc < taskCountOf exTree \<and>
         node_x (createNodes (\<lambda>_. 1 / 2) exTree 800 600 None (Some [exPrevM]) ! 1) =
           fst (milestonePosition 800 600 (length exTree) p (exTree ! p)) +
           cos (taskAngleOf (length (milestone_tasks (exTree ! p))) q) *
             (TASK_ORBIT_RADIUS_MIN + (1 / 2) * (TASK_ORBIT_RADIUS_MAX - TASK_ORBIT_RADIUS_MIN)) \<and>
         node_y (createNodes (\<lambda>_. 1 / 2) exTree 800 600 None (Some [exPrevM]) ! 1) =
           snd (milestonePosition 800 600 (length exTree) p (exTree ! p)) +
           sin (taskAngleOf (length (milestone_tasks (exTree ! p))) q) *
             (TASK_ORBIT_RADIUS_MIN + (1 / 2) * (TASK_ORBIT_RADIUS_MAX - TASK_ORBIT_RADIUS_MIN))"
    using B n2 t2 by blast
  then have new: "node_x (createNodes (\<lambda>_. 1 / 2) exTree 800 600 None (Some [exPrevM]) ! 1) = 140 \<and>
                  node_y (createNodes (\<lambda>_. 1 / 2) exTree 800 600 None (Some [exPrevM]) ! 1) = 0"
    using pos by (auto simp: sz taskAngleOf_def TASK_ORBIT_RADIUS_MIN_def TASK_ORBIT_RADIUS_MAX_def)
  have old: "node_x (createNodes (\<lambda>_. 0) exTree 800 600 None (Some [exPrevM, exPrevT]) ! 1) = 7 \<and>
   node_y (createNodes (\<lambda>_. 0) exTree 800 600 None (Some [exPrevM, exPrevT]) ! 1) = 9 \<and>
   createNodes (\<lambda>_. 0) exTree 800 600 None (Some [exPrevM, exPrevT]) =
   createNodes (\<lambda>_. 1 / 2) exTree 800 600 None (Some [exPrevM, exPrevT])"
    using A n t f d by (auto simp: exPrevT_def)
  have ms: "filter (\<lambda>n. node_type n = Milestone) (createNodes (\<lambda>_. 0) exTree 800 600 None (Some [exPrevM, exPrevT])) =
     [exPrevM\<lparr>node_x := 0, node_y := 0\<rparr>]"
    using A m by simp
  show ?thesis using old ms new by blast
qed

text \<open>
  Claim C8 as stated fails twice. The milestone \<open>m\<close> is stored at \<open>(0, 0)\<close> and occurs in
  \<open>previousNodes\<close> at \<open>(5, 5)\<close>: the output puts it at \<open>(0, 0)\<close>. Its task \<open>t\<close> does not occur in
  \<open>previousNodes\<close>: with the random draw \<open>0\<close> it is placed at \<open>x = 120\<close>, with the draw \<open>1/2\<close> at
  \<open>x = 140\<close>, so two calls with the same tree and the same \<open>previousNodes\<close> differ.
\<close>

theorem createNodes_idempotence_counterexample:
  "node_id (createNodes (\<lambda>_. 0) exTree 800 600 None (Some [exPrevM]) ! 0) = node_id exPrevM \<and>
   node_x (createNodes (\<lambda>_. 0) exTree 800 600 None (Some [exPrevM]) ! 0) \<noteq> node_x exPrevM \<and>
   node_x (createNodes (\<lambda>_. 0) exTree 800 600 None (Some [exPrevM]) ! 1) = 120 \<and>
   node_x (createNodes (\<lambda>_. 1 / 2) exTree 800 600 None (Some [exPrevM]) ! 1) = 140"
  by (simp add: createNodes_def exTree_def existingPositionsOf_def exPrevM_def Let_def
        TASK_ORBIT_RADIUS_MIN_def TASK_ORBIT_RADIUS_MAX_def)

declare childRingLoop.simps [simp del]

declare interiorLoop.simps [simp del]

declare focusedRingLoop.simps [simp del]

declare bumpLoop.simps [simp del]

lemma word32_unit:
  "0 \<le> real (unat (w :: 32 word)) / 4294967296 \<and> real (unat w) / 4294967296 < 1"
proof -
  have "unat w < 2 ^ 32"
    using unsigned_less [of w, where ?'a = nat] by simp
  then have "real (unat w) < 2 ^ 32"
    by (metis of_nat_less_iff of_nat_numeral of_nat_power)
  moreover have "0 \<le> real (unat w)"
    by (rule of_nat_0_le_iff)
  ultimately show ?thesis
    by (simp del: of_nat_unat)
qed

lemma rng_next_range: "0 \<le> fst (rng_next st) \<and> fst (rng_next st) < 1"
  unfolding rng_next_def Let_def fst_conv by (rule word32_unit)

lemma childRingLoop_unfold:
  "i < n \<Longrightarrow> childRingLoop pf R n i st =
     (childRingPuff pf R n i (fst (rng_next st)) (fst (rng_next (snd (rng_next st)))) #
        fst (childRingLoop pf R n (i + 1) (snd (rng_next (snd (rng_next st))))),
      snd (childRingLoop pf R n (i + 1) (snd (rng_next (snd (rng_next st))))))"
  by (subst childRingLoop.simps) (simp add: Let_def childRingPuff_def split: prod.splits)

lemma childRingLoop_done: "\<not> i < n \<Longrightarrow> childRingLoop pf R n i st = ([], st)"
  by (subst childRingLoop.simps) simp

lemma childRingLoop_set:
  "p \<in> set (fst (childRingLoop pf R n i st)) \<Longrightarrow>
   \<exists>j u1 u2. j < n \<and> 0 \<le> u1 \<and> u1 < 1 \<and> 0 \<le> u2 \<and> u2 < 1 \<and> p = childRingPuff pf R n j u1 u2"
proof (induction "n - i" arbitrary: i st)
  case 0
  then show ?case by (simp add: childRingLoop_done)
next
  case (Suc k)
  then have lt: "i < n" by simp
  have "p = childRingPuff pf R n i (fst (rng_next st)) (fst (rng_next (snd (rng_next st)))) \<or>
        p \<in> set (fst (childRingLoop pf R n (i + 1) (snd (rng_next (snd (rng_next st))))))"
    using Suc.prems by (simp add: childRingLoop_unfold [OF lt])
  then show ?case
  proof
    assume "p = childRingPuff pf R n i (fst (rng_next st)) (fst (rng_next (snd (rng_next st))))"
    then show ?thesis using lt rng_next_range by blast
  next
    assume "p \<in> set (fst (childRingLoop pf R n (i + 1) (snd (rng_next (snd (rng_next st))))))"
    then show ?thesis using Suc.hyps(1) [of "i + 1"] Suc.hyps(2) by simp
  qed
qed

lemma interiorLoop_unfold:
  "i < n \<Longrightarrow> interiorLoop pf R spread n i st =
     (interiorPuff pf R spread (fst (rng_next st)) (fst (rng_next (snd (rng_next st))))
        (fst (rng_next (snd (rng_next (snd (rng_next st)))))) #
        fst (interiorLoop pf R spread n (i + 1) (snd (rng_next (snd (rng_next (snd (rng_next st))))))),
      snd (interiorLoop pf R spread n (i + 1) (snd (rng_next (snd (rng_next (snd (rng_next st))))))))"
  by (subst interiorLoop.simps) (simp add: Let_def interiorPuff_def split: prod.splits)

lemma interiorLoop_done: "\<not> i < n \<Longrightarrow> interiorLoop pf R spread n i st = ([], st)"
  by (subst interiorLoop.simps) simp

lemma interiorLoop_set:
  "p \<in> set (fst (interiorLoop pf R spread n i st)) \<Longrightarrow>
   \<exists>u1 u2 u3. 0 \<le> u1 \<and> u1 < 1 \<and> 0 \<le> u2 \<and> u2 < 1 \<and> 0 \<le> u3 \<and> u3 < 1 \<and> p = interiorPuff pf R spread u1 u2 u3"
proof (induction "n - i" arbitrary: i st)
  case 0
  then show ?case by (simp add: interiorLoop_done)
next
  case (Suc k)
  then have lt: "i < n" by simp
  let ?st3 = "snd (rng_next (snd (rng_next (snd (rng_next st)))))"
  have "p = interiorPuff pf R spread (fst (rng_next st)) (fst (rng_next (snd (rng_next st))))
              (fst (rng_next (snd (rng_next (snd (rng_next st)))))) \<or>
        p \<in> set (fst (interiorLoop pf R spread n (i + 1) ?st3))"
    using Suc.prems by (simp add: interiorLoop_unfold [OF lt])
  then show ?case
  proof
    assume "p = interiorPuff pf R spread (fst (rng_next st)) (fst (rng_next (snd (rng_next st))))
              (fst (rng_next (snd (rng_next (snd (rng_next st))))))"
    then show ?thesis using rng_next_range by blast
  next
    assume "p \<in> set (fst (interiorLoop pf R spread n (i + 1) ?st3))"
    then show ?thesis using Suc.hyps(1) [of "i + 1"] Suc.hyps(2) by simp
  qed
qed

lemma focusedRingLoop_unfold:
  "i < m \<Longrightarrow> focusedRingLoop pf R m i st =
     (focusedRingPuff pf R m i (fst (rng_next st)) (fst (rng_next (snd (rng_next st)))) #
        fst (focusedRingLoop pf R m (i + 1) (snd (rng_next (snd (rng_next st))))),
      snd (focusedRingLoop pf R m (i + 1) (snd (rng_next (snd (rng_next st))))))"
  by (subst focusedRingLoop.simps) (simp add: Let_def focusedRingPuff_def split: prod.splits)

lemma focusedRingLoop_done: "\<not> i < m \<Longrightarrow> focusedRingLoop pf R m i st = ([], st)"
  by (subst focusedRingLoop.simps) simp

lemma focusedRingLoop_set:
  "p \<in> set (fst (focusedRingLoop pf R m i st)) \<Longrightarrow>
   \<exists>j u1 u2. j < m \<and> 0 \<le> u1 \<and> u1 < 1 \<and> 0 \<le> u2 \<and> u2 < 1 \<and> p = focusedRingPuff pf R m j u1 u2"
proof (induction "m - i" arbitrary: i st)
  case 0
  then show ?case by (simp add: focusedRingLoop_done)
next
  case (Suc k)
  then have lt: "i < m" by simp
  have "p = focusedRingPuff pf R m i (fst (rng_next st)) (fst (rng_next (snd (rng_next st)))) \<or>
        p \<in> set (fst (focusedRingLoop pf R m (i + 1) (snd (rng_next (snd (rng_next st))))))"
    using Suc.prems by (simp add: focusedRingLoop_unfold [OF lt])
  then show ?case
  proof
    assume "p = focusedRingPuff pf R m i (fst (rng_next st)) (fst (rng_next (snd (rng_next st))))"
    then show ?thesis using lt rng_next_range by blast
  next
    assume "p \<in> set (fst (focusedRingLoop pf R m (i + 1) (snd (rng_next (snd (rng_next st))))))"
    then show ?thesis using Suc.hyps(1) [of "i + 1"] Suc.hyps(2) by simp
  qed
qed

lemma cornerLoop_set:
  "p \<in> set (fst (cornerLoop pf R angles st)) \<Longrightarrow>
   \<exists>angle u. 0 \<le> u \<and> u < 1 \<and> p = cornerPuff pf R angle u"
proof (induction angles arbitrary: st)
  case Nil
  then show ?case by simp
next
  case (Cons a angles)
  have "p = cornerPuff pf R a (fst (rng_next st)) \<or> p \<in> set (fst (cornerLoop pf R angles (snd (rng_next st))))"
    using Cons.prems by (auto simp: Let_def cornerPuff_def split: prod.splits)
  then show ?case
    using Cons.IH rng_next_range by blast
qed

lemma polar_norm: "sqrt ((cos a * d) * (cos a * d) + (sin a * d) * (sin a * d)) = \<bar>d\<bar>"
proof -
  have "(cos a)\<^sup>2 + (sin a)\<^sup>2 = 1" by simp
  then have "(cos a * d) * (cos a * d) + (sin a * d) * (sin a * d) = d * d"
    by algebra
  then show ?thesis by simp
qed

lemma puffOuterEdge_polar:
  "puffOuterEdge \<lparr>puff_x = cos a * d, puff_y = sin a * d, puff_r = r\<rparr> = \<bar>d\<bar> + r"
  by (simp add: puffOuterEdge_def polar_norm)

lemma unit_scale: "0 \<le> (b :: real) \<Longrightarrow> 0 \<le> u \<Longrightarrow> u < 1 \<Longrightarrow> 0 \<le> b * u \<and> b * u \<le> b"
  using mult_left_le [of u b] by (simp add: mult.commute)

lemma childRingPuff_inside:
  assumes "65 / 2 \<le> R" and "0 \<le> u1" "u1 < 1" and "0 \<le> u2" "u2 < 1"
  shows "puffOuterEdge (childRingPuff (childProfile b R) R n i u1 u2) \<le> R"
proof -
  define dst where "dst = R * (1 / 2 + (u1 - 1 / 2) * (15 / 1000))"
  define pmin where "pmin = max 8 (R * (15 / 100))"
  define pmax where "pmax = max 16 (R * (40 / 100))"
  define X where "X = max (R * (27 / 100)) 18 * (12 / 10) * (70 / 100 + u2 * (60 / 100))"
  define pr where "pr = max pmin (min pmax X)"
  define r where "r = max pmin (min pr (R - dst + pr * (1 / 2)))"
  have w: "0 \<le> R * u1" "R * u1 \<le> R"
    using unit_scale [of R u1] assms by auto
  have d: "dst = R / 2 + (R * u1 - R / 2) * (15 / 1000)"
    by (simp add: dst_def algebra_simps)
  have edge: "puffOuterEdge (childRingPuff (childProfile b R) R n i u1 u2) = \<bar>dst\<bar> + r"
    unfolding childRingPuff_def Let_def puffOuterEdge_polar
    by (simp add: childProfile_def dst_def r_def pr_def pmin_def pmax_def X_def)
  have "r \<le> max pmin pmax"
    unfolding r_def pr_def by simp
  then have "r \<le> max 16 (R * (40 / 100))"
    using assms(1) unfolding pmin_def pmax_def by linarith
  then show ?thesis
    unfolding edge using d w assms(1) by argo
qed

lemma interiorPuff_child_inside:
  assumes "65 / 2 \<le> R" and "0 \<le> u2" "u2 < 1"
  shows "puffOuterEdge (interiorPuff (childProfile b R) R (50 / 100) u1 u2 u3) \<le> R"
proof -
  define dst where "dst = R * (sqrt u2 * (50 / 100))"
  define pmin where "pmin = max 8 (R * (15 / 100))"
  define pmax where "pmax = max 16 (R * (40 / 100))"
  define X where "X = max (R * (27 / 100)) 18 * (60 / 100 + u3 * (80 / 100))"
  define r where "r = max pmin (min pmax X)"
  have s: "0 \<le> sqrt u2" "sqrt u2 < 1"
    using assms(2,3) by (simp_all add: real_sqrt_lt_1_iff)
  have w: "0 \<le> R * sqrt u2" "R * sqrt u2 \<le> R"
    using unit_scale [of R "sqrt u2"] s assms(1) by auto
  have d: "dst = (R * sqrt u2) * (50 / 100)"
    by (simp add: dst_def)
  have edge: "puffOuterEdge (interiorPuff (childProfile b R) R (50 / 100) u1 u2 u3) = \<bar>dst\<bar> + r"
    unfolding interiorPuff_def Let_def puffOuterEdge_polar
    by (simp add: childProfile_def dst_def r_def pmin_def pmax_def X_def)
  have "r \<le> max pmin pmax"
    unfolding r_def by simp
  then have "r \<le> max 16 (R * (40 / 100))"
    using assms(1) unfolding pmin_def pmax_def by linarith
  then show ?thesis
    unfolding edge using d w assms(1) by argo
qed

lemma focusedRingPuff_inside:
  assumes "117 / 2 \<le> R" and "0 \<le> u1" "u1 < 1" and "0 \<le> u2" "u2 < 1"
  shows "puffOuterEdge (focusedRingPuff (focusedProfile Rx Ry R) R m i u1 u2) \<le> R"
proof -
  define dst where "dst = R * (1 / 2 + (u1 - 1 / 2) * (20 / 100))"
  define base where "base = max (R * (27 / 100)) 18"
  define pmax where "pmax = min (R * (45 / 100)) 40"
  define r where "r = max 14 (min pmax (base * (70 / 100 + u2 * (60 / 100))))"
  have w: "0 \<le> R * u1" "R * u1 \<le> R"
    using unit_scale [of R u1] assms by auto
  have bpos: "0 \<le> base" unfolding base_def by simp
  have v: "0 \<le> base * u2" "base * u2 \<le> base"
    using unit_scale [OF bpos assms(4,5)] by auto
  have d: "dst = R / 2 + (R * u1 - R / 2) * (20 / 100)"
    by (simp add: dst_def algebra_simps)
  have x: "base * (70 / 100 + u2 * (60 / 100)) = base * (70 / 100) + (base * u2) * (60 / 100)"
    by (simp add: algebra_simps)
  have edge: "puffOuterEdge (focusedRingPuff (focusedProfile Rx Ry R) R m i u1 u2) = \<bar>dst\<bar> + r"
    unfolding focusedRingPuff_def Let_def puffOuterEdge_polar
    by (simp add: focusedProfile_def Let_def dst_def r_def pmax_def base_def)
  have "r \<le> max 14 (base * (70 / 100) + (base * u2) * (60 / 100))"
    unfolding r_def x by simp
  then have "r \<le> R * (40 / 100)"
    using v assms(1) unfolding base_def by linarith
  then show ?thesis
    unfolding edge using d w assms(1) by argo
qed

lemma cornerPuff_inside:
  assumes "117 / 2 \<le> R" and "0 \<le> u" "u < 1"
  shows "puffOuterEdge (cornerPuff (focusedProfile Rx Ry R) R angle u) \<le> R"
proof -
  define base where "base = max (R * (27 / 100)) 18"
  define pmax where "pmax = min (R * (45 / 100)) 40"
  define r where "r = max 14 (min pmax (base * (85 / 100 + u * (30 / 100))))"
  have bpos: "0 \<le> base" unfolding base_def by simp
  have v: "0 \<le> base * u" "base * u \<le> base"
    using unit_scale [OF bpos assms(2,3)] by auto
  have x: "base * (85 / 100 + u * (30 / 100)) = base * (85 / 100) + (base * u) * (30 / 100)"
    by (simp add: algebra_simps)
  have edge: "puffOuterEdge (cornerPuff (focusedProfile Rx Ry R) R angle u) = \<bar>R * (50 / 100)\<bar> + r"
    unfolding cornerPuff_def Let_def puffOuterEdge_polar
    by (simp add: focusedProfile_def Let_def r_def pmax_def base_def)
  have "r \<le> max 14 (base * (85 / 100) + (base * u) * (30 / 100))"
    unfolding r_def x by simp
  then have "r \<le> R * (40 / 100)"
    using v assms(1) unfolding base_def by linarith
  then show ?thesis
    unfolding edge using assms(1) by argo
qed

lemma interiorPuff_focused_inside:
  assumes "117 / 2 \<le> R" and "0 \<le> u2" "u2 < 1"
  shows "puffOuterEdge (interiorPuff (focusedProfile Rx Ry R) R (55 / 100) u1 u2 u3) \<le> R"
proof -
  define dst where "dst = R * (sqrt u2 * (55 / 100))"
  define pmax where "pmax = min (R * (45 / 100)) 40"
  define X where "X = max (R * (27 / 100)) 18 * (60 / 100 + u3 * (80 / 100))"
  define r where "r = max 14 (min pmax X)"
  have s: "0 \<le> sqrt u2" "sqrt u2 < 1"
    using assms(2,3) by (simp_all add: real_sqrt_lt_1_iff)
  have w: "0 \<le> R * sqrt u2" "R * sqrt u2 \<le> R"
    using unit_scale [of R "sqrt u2"] s assms(1) by auto
  have d: "dst = (R * sqrt u2) * (55 / 100)"
    by (simp add: dst_def)
  have edge: "puffOuterEdge (interiorPuff (focusedProfile Rx Ry R) R (55 / 100) u1 u2 u3) = \<bar>dst\<bar> + r"
    unfolding interiorPuff_def Let_def puffOuterEdge_polar
    by (simp add: focusedProfile_def Let_def dst_def r_def pmax_def X_def)
  have "r \<le> max 14 pmax"
    unfolding r_def by simp
  then have "r \<le> R * (45 / 100)"
    using assms(1) unfolding pmax_def by linarith
  then show ?thesis
    unfolding edge using d w assms(1) by argo
qed

lemma bumpLoop_length: "length (bumpLoop r n i st) = n - i"
proof (induction "n - i" arbitrary: i st)
  case 0
  then show ?case by (subst bumpLoop.simps) simp
next
  case (Suc k)
  then have lt: "i < n" by simp
  have "length (bumpLoop r n (i + 1) st') = n - (i + 1)" for st'
    using Suc.hyps(1) [of "i + 1" st'] Suc.hyps(2) by simp
  then show ?case
    using lt by (subst bumpLoop.simps) (simp add: Let_def split: prod.splits)
qed

lemma cloudInv_newCloud: "cloudInv (newCloud node)"
  by (simp add: cloudInv_def newCloud_def Let_def bumpLoop_length split: prod.splits)

lemma computeMorphPuffs_frame:
  "basePuffs (computeMorphPuffs W H c) = basePuffs c \<and> cloud_node (computeMorphPuffs W H c) = cloud_node c \<and>
   isChildOfFocusedNode (computeMorphPuffs W H c) = isChildOfFocusedNode c \<and>
   currentPuffs (computeMorphPuffs W H c) = currentPuffs c \<and>
   \<not> morphComplete (computeMorphPuffs W H c) \<and>
   coverageR (computeMorphPuffs W H c) = max (W / 2 + 25) (H / 2 + 25)"
  by (simp add: computeMorphPuffs_def Let_def)

lemma computeMorphPuffs_child:
  assumes "isChildOfFocusedNode c"
  shows "targetPuffs (computeMorphPuffs W H c) =
     (let R = max (W / 2 + 25) (H / 2 + 25);
          pf = childProfile (length (basePuffs c)) R;
          ringCount = totalPuffCount pf - nat \<lfloor>real (totalPuffCount pf) * interiorRatio pf\<rfloor>;
          ring = childRingLoop pf R (min 4 ringCount) 0 (createMorphSeed (node_id (cloud_node c)) ''child'' W H)
      in \<lparr>puff_x = 0, puff_y = 0, puff_r = max (puffRadiusMax pf * (12 / 10)) (R * (50 / 100))\<rparr> #
         fst ring @
         fst (interiorLoop pf R (50 / 100) (totalPuffCount pf - min 4 ringCount - 1) 0 (snd ring)))"
  using assms by (simp add: computeMorphPuffs_def Let_def split: prod.splits)

lemma computeMorphPuffs_focused:
  assumes "\<not> isChildOfFocusedNode c"
  shows "targetPuffs (computeMorphPuffs W H c) =
     (let Rx = W / 2 + 25; Ry = H / 2 + 25; R = max Rx Ry;
          pf = focusedProfile Rx Ry R;
          interiorCount = nat \<lfloor>real (totalPuffCount pf) * interiorRatio pf\<rfloor>;
          ringCount = totalPuffCount pf - interiorCount;
          ring = focusedRingLoop pf R (ringCount - 1) 0 (createMorphSeed (node_id (cloud_node c)) ''focused'' W H);
          corners = cornerLoop pf R cornerAngles (snd ring)
      in \<lparr>puff_x = 0, puff_y = 0, puff_r = min Rx Ry * (45 / 100)\<rparr> #
         fst ring @ fst corners @ fst (interiorLoop pf R (55 / 100) interiorCount 0 (snd corners)))"
  using assms by (simp add: computeMorphPuffs_def Let_def split: prod.splits)

lemma computeMorphPuffs_inputs:
  assumes "node_id (cloud_node c1) = node_id (cloud_node c2)"
    and "isChildOfFocusedNode c1 = isChildOfFocusedNode c2"
    and "length (basePuffs c1) = length (basePuffs c2)"
  shows "targetPuffs (computeMorphPuffs W H c1) = targetPuffs (computeMorphPuffs W H c2)"
proof (cases "isChildOfFocusedNode c2")
  case True
  then have c1: "isChildOfFocusedNode c1" using assms(2) by simp
  show ?thesis
    unfolding computeMorphPuffs_child [OF True] computeMorphPuffs_child [OF c1] assms(1,3) by (rule refl)
next
  case False
  then have c1: "\<not> isChildOfFocusedNode c1" using assms(2) by simp
  show ?thesis
    unfolding computeMorphPuffs_focused [OF False] computeMorphPuffs_focused [OF c1] assms(1) by (rule refl)
qed

lemma computeMorphPuffs_child_set:
  assumes "isChildOfFocusedNode c" and "p \<in> set (targetPuffs (computeMorphPuffs W H c))"
  shows "\<exists>b n. let R = max (W / 2 + 25) (H / 2 + 25); pf = childProfile b R in
           p = \<lparr>puff_x = 0, puff_y = 0, puff_r = max (puffRadiusMax pf * (12 / 10)) (R * (50 / 100))\<rparr> \<or>
           (\<exists>j u1 u2. 0 \<le> u1 \<and> u1 < 1 \<and> 0 \<le> u2 \<and> u2 < 1 \<and> p = childRingPuff pf R n j u1 u2) \<or>
           (\<exists>u1 u2 u3. 0 \<le> u2 \<and> u2 < 1 \<and> p = interiorPuff pf R (50 / 100) u1 u2 u3)"
proof -
  define R where "R = max (W / 2 + 25) (H / 2 + 25)"
  define pf where "pf = childProfile (length (basePuffs c)) R"
  define ringCount where "ringCount = totalPuffCount pf - nat \<lfloor>real (totalPuffCount pf) * interiorRatio pf\<rfloor>"
  define ring where "ring = childRingLoop pf R (min 4 ringCount) 0 (createMorphSeed (node_id (cloud_node c)) ''child'' W H)"
  have "p = \<lparr>puff_x = 0, puff_y = 0, puff_r = max (puffRadiusMax pf * (12 / 10)) (R * (50 / 100))\<rparr> \<or>
        p \<in> set (fst ring) \<or>
        p \<in> set (fst (interiorLoop pf R (50 / 100) (totalPuffCount pf - min 4 ringCount - 1) 0 (snd ring)))"
    using assms(2) unfolding computeMorphPuffs_child [OF assms(1)] Let_def
      R_def [symmetric] pf_def [symmetric] ringCount_def [symmetric] ring_def [symmetric]
    by auto
  then have "p = \<lparr>puff_x = 0, puff_y = 0, puff_r = max (puffRadiusMax pf * (12 / 10)) (R * (50 / 100))\<rparr> \<or>
           (\<exists>j u1 u2. 0 \<le> u1 \<and> u1 < 1 \<and> 0 \<le> u2 \<and> u2 < 1 \<and> p = childRingPuff pf R (min 4 ringCount) j u1 u2) \<or>
           (\<exists>u1 u2 u3. 0 \<le> u2 \<and> u2 < 1 \<and> p = interiorPuff pf R (50 / 100) u1 u2 u3)"
    using childRingLoop_set [of p pf R "min 4 ringCount" 0] interiorLoop_set [of p pf R "50 / 100"]
    unfolding ring_def by blast
  then show ?thesis
    unfolding Let_def R_def [symmetric] pf_def by blast
qed

lemma computeMorphPuffs_focused_set:
  assumes "\<not> isChildOfFocusedNode c" and "p \<in> set (targetPuffs (computeMorphPuffs W H c))"
  shows "\<exists>m. let Rx = W / 2 + 25; Ry = H / 2 + 25; R = max Rx Ry; pf = focusedProfile Rx Ry R in
           p = \<lparr>puff_x = 0, puff_y = 0, puff_r = min Rx Ry * (45 / 100)\<rparr> \<or>
           (\<exists>j u1 u2. 0 \<le> u1 \<and> u1 < 1 \<and> 0 \<le> u2 \<and> u2 < 1 \<and> p = focusedRingPuff pf R m j u1 u2) \<or>
           (\<exists>angle u. 0 \<le> u \<and> u < 1 \<and> p = cornerPuff pf R angle u) \<or>
           (\<exists>u1 u2 u3. 0 \<le> u2 \<and> u2 < 1 \<and> p = interiorPuff pf R (55 / 100) u1 u2 u3)"
proof -
  define Rx where "Rx = W / 2 + 25"
  define Ry where "Ry = H / 2 + 25"
  define R where "R = max Rx Ry"
  define pf where "pf = focusedProfile Rx Ry R"
  define interiorCount where "interiorCount = nat \<lfloor>real (totalPuffCount pf) * interiorRatio pf\<rfloor>"
  define ringCount where "ringCount = totalPuffCount pf - interiorCount"
  define ring where "ring = focusedRingLoop pf R (ringCount - 1) 0 (createMorphSeed (node_id (cloud_node c)) ''focused'' W H)"
  define corners where "corners = cornerLoop pf R cornerAngles (snd ring)"
  have "p = \<lparr>puff_x = 0, puff_y = 0, puff_r = min Rx Ry * (45 / 100)\<rparr> \<or>
        p \<in> set (fst ring) \<or> p \<in> set (fst corners) \<or>
        p \<in> set (fst (interiorLoop pf R (55 / 100) interiorCount 0 (snd corners)))"
    using assms(2) unfolding computeMorphPuffs_focused [OF assms(1)] Let_def
      Rx_def [symmetric] Ry_def [symmetric] R_def [symmetric] pf_def [symmetric]
      interiorCount_def [symmetric] ringCount_def [symmetric] ring_def [symmetric] corners_def [symmetric]
    by auto
  then consider (center) "p = \<lparr>puff_x = 0, puff_y = 0, puff_r = min Rx Ry * (45 / 100)\<rparr>"
    | (ring) "p \<in> set (fst ring)" | (corner) "p \<in> set (fst corners)"
    | (interior) "p \<in> set (fst (interiorLoop pf R (55 / 100) interiorCount 0 (snd corners)))"
    by blast
  then have "p = \<lparr>puff_x = 0, puff_y = 0, puff_r = min Rx Ry * (45 / 100)\<rparr> \<or>
           (\<exists>j u1 u2. 0 \<le> u1 \<and> u1 < 1 \<and> 0 \<le> u2 \<and> u2 < 1 \<and> p = focusedRingPuff pf R (ringCount - 1) j u1 u2) \<or>
           (\<exists>angle u. 0 \<le> u \<and> u < 1 \<and> p = cornerPuff pf R angle u) \<or>
           (\<exists>u1 u2 u3. 0 \<le> u2 \<and> u2 < 1 \<and> p = interiorPuff pf R (55 / 100) u1 u2 u3)"
  proof cases
    case center
    then show ?thesis by simp
  next
    case ring
    then obtain j u1 u2 where "0 \<le> u1" "u1 < 1" "0 \<le> u2" "u2 < 1" "p = focusedRingPuff pf R (ringCount - 1) j u1 u2"
      using focusedRingLoop_set [of p pf R "ringCount - 1" 0] unfolding ring_def by blast
    then show ?thesis by blast
  next
    case corner
    then obtain angle u where "0 \<le> u" "u < 1" "p = cornerPuff pf R angle u"
      using cornerLoop_set [of p pf R cornerAngles] unfolding corners_def by blast
    then show ?thesis by blast
  next
    case interior
    then obtain u1 u2 u3 where "0 \<le> u2" "u2 < 1" "p = interiorPuff pf R (55 / 100) u1 u2 u3"
      using interiorLoop_set [of p pf R "55 / 100" interiorCount 0] by blast
    then show ?thesis by blast
  qed
  then show ?thesis
    unfolding Let_def Rx_def [symmetric] Ry_def [symmetric] R_def [symmetric] pf_def by blast
qed

lemma centerPuff_edge: "puffOuterEdge \<lparr>puff_x = 0, puff_y = 0, puff_r = r\<rparr> = r"
  by (simp add: puffOuterEdge_def)

lemma computeMorphPuffs_child_inside:
  assumes "isChildOfFocusedNode c" and "15 \<le> max W H"
    and "p \<in> set (targetPuffs (computeMorphPuffs W H c))"
  shows "puffOuterEdge p \<le> max (W / 2 + 25) (H / 2 + 25)"
proof -
  define R where "R = max (W / 2 + 25) (H / 2 + 25)"
  have R: "65 / 2 \<le> R" using assms(2) unfolding R_def by linarith
  obtain b n where
    "p = \<lparr>puff_x = 0, puff_y = 0, puff_r = max (puffRadiusMax (childProfile b R) * (12 / 10)) (R * (50 / 100))\<rparr> \<or>
     (\<exists>j u1 u2. 0 \<le> u1 \<and> u1 < 1 \<and> 0 \<le> u2 \<and> u2 < 1 \<and> p = childRingPuff (childProfile b R) R n j u1 u2) \<or>
     (\<exists>u1 u2 u3. 0 \<le> u2 \<and> u2 < 1 \<and> p = interiorPuff (childProfile b R) R (50 / 100) u1 u2 u3)"
    using computeMorphPuffs_child_set [OF assms(1,3)] unfolding Let_def R_def [symmetric] by blast
  then consider (center) "p = \<lparr>puff_x = 0, puff_y = 0, puff_r = max (puffRadiusMax (childProfile b R) * (12 / 10)) (R * (50 / 100))\<rparr>"
    | (ring) j u1 u2 where "0 \<le> u1" "u1 < 1" "0 \<le> u2" "u2 < 1" "p = childRingPuff (childProfile b R) R n j u1 u2"
    | (interior) u1 u2 u3 where "0 \<le> u2" "u2 < 1" "p = interiorPuff (childProfile b R) R (50 / 100) u1 u2 u3"
    by blast
  then have "puffOuterEdge p \<le> R"
  proof cases
    case center
    have "max (max 16 (R * (40 / 100)) * (12 / 10)) (R * (50 / 100)) \<le> R"
      using R by linarith
    then show ?thesis
      unfolding center centerPuff_edge by (simp add: childProfile_def)
  next
    case ring
    then show ?thesis using childRingPuff_inside [OF R] by simp
  next
    case interior
    then show ?thesis using interiorPuff_child_inside [OF R] by simp
  qed
  then show ?thesis unfolding R_def .
qed

lemma computeMorphPuffs_focused_inside:
  assumes "\<not> isChildOfFocusedNode c" and "67 \<le> max W H"
    and "p \<in> set (targetPuffs (computeMorphPuffs W H c))"
  shows "puffOuterEdge p \<le> max (W / 2 + 25) (H / 2 + 25)"
proof -
  define Rx where "Rx = W / 2 + 25"
  define Ry where "Ry = H / 2 + 25"
  define R where "R = max Rx Ry"
  have R: "117 / 2 \<le> R" using assms(2) unfolding R_def Rx_def Ry_def by linarith
  obtain m where
    "p = \<lparr>puff_x = 0, puff_y = 0, puff_r = min Rx Ry * (45 / 100)\<rparr> \<or>
     (\<exists>j u1 u2. 0 \<le> u1 \<and> u1 < 1 \<and> 0 \<le> u2 \<and> u2 < 1 \<and> p = focusedRingPuff (focusedProfile Rx Ry R) R m j u1 u2) \<or>
     (\<exists>angle u. 0 \<le> u \<and> u < 1 \<and> p = cornerPuff (focusedProfile Rx Ry R) R angle u) \<or>
     (\<exists>u1 u2 u3. 0 \<le> u2 \<and> u2 < 1 \<and> p = interiorPuff (focusedProfile Rx Ry R) R (55 / 100) u1 u2 u3)"
    using computeMorphPuffs_focused_set [OF assms(1,3)]
    unfolding Let_def Rx_def [symmetric] Ry_def [symmetric] R_def [symmetric] by blast
  then consider (center) "p = \<lparr>puff_x = 0, puff_y = 0, puff_r = min Rx Ry * (45 / 100)\<rparr>"
    | (ring) j u1 u2 where "0 \<le> u1" "u1 < 1" "0 \<le> u2" "u2 < 1" "p = focusedRingPuff (focusedProfile Rx Ry R) R m j u1 u2"
    | (corner) angle u where "0 \<le> u" "u < 1" "p = cornerPuff (focusedProfile Rx Ry R) R angle u"
    | (interior) u1 u2 u3 where "0 \<le> u2" "u2 < 1" "p = interiorPuff (focusedProfile Rx Ry R) R (55 / 100) u1 u2 u3"
    by blast
  then have "puffOuterEdge p \<le> R"
  proof cases
    case center
    have "min Rx Ry * (45 / 100) \<le> R"
      using R unfolding R_def by linarith
    then show ?thesis
      unfolding center centerPuff_edge .
  next
    case ring
    then show ?thesis using focusedRingPuff_inside [OF R] by simp
  next
    case corner
    then show ?thesis using cornerPuff_inside [OF R] by simp
  next
    case interior
    then show ?thesis using interiorPuff_focused_inside [OF R] by simp
  qed
  then show ?thesis unfolding R_def Rx_def Ry_def .
qed

lemma computeMorphPuffs_coverage:
  "coverageR (computeMorphPuffs W H c) = max (W / 2) (H / 2) + 25"
proof -
  have "coverageR (computeMorphPuffs W H c) = max (W / 2 + 25) (H / 2 + 25)"
    using computeMorphPuffs_frame by blast
  then show ?thesis by linarith
qed

lemma computeMorphPuffs_inside:
  assumes "if isChildOfFocusedNode c then 15 \<le> max W H else 67 \<le> max W H"
    and "p \<in> set (targetPuffs (computeMorphPuffs W H c))"
  shows "puffOuterEdge p \<le> coverageR (computeMorphPuffs W H c)"
proof -
  have cov: "coverageR (computeMorphPuffs W H c) = max (W / 2 + 25) (H / 2 + 25)"
    using computeMorphPuffs_frame by blast
  show ?thesis
  proof (cases "isChildOfFocusedNode c")
    case True
    then show ?thesis
      unfolding cov using computeMorphPuffs_child_inside [OF True _ assms(2)] assms(1) by simp
  next
    case False
    then show ?thesis
      unfolding cov using computeMorphPuffs_focused_inside [OF False _ assms(2)] assms(1) by simp
  qed
qed

lemma layoutFocusedContent_call:
  "layoutFocusedContent bw bh c =
     computeMorphPuffs (bw + 80) (bh + 64) (c\<lparr>requiredCoverageR := max ((bw + 80) / 2 + 15) ((bh + 64) / 2 + 15)\<rparr>)"
  by (simp add: layoutFocusedContent_def Let_def PADDING_X_def PADDING_Y_def)

lemma layoutChildContent_call:
  "layoutChildContent bw bh c =
     computeMorphPuffs (bw + 60) (bh + 50) (c\<lparr>requiredCoverageR := max ((bw + 60) / 2 + 15) ((bh + 50) / 2 + 15)\<rparr>)"
  by (simp add: layoutChildContent_def Let_def)

subsection \<open>The claims about the shape synthesizer\<close>

text \<open>
  Claim C6 (shape containment). For every call of \<open>computeMorphPuffs\<close> the coverage radius is
  \<open>max (requiredW / 2) (requiredH / 2) + 25\<close>, hence at least \<open>max requiredW requiredH / 2\<close>,
  and every generated puff lies within the coverage boundary (the distance of its centre from
  the origin plus its radius does not exceed the coverage radius) as soon as the larger
  required dimension is at least 15 in the child profile and at least 67 in the focused
  profile. \<open>computeMorphPuffs\<close> is private and has two call sites, which add their paddings to
  the measured content: \<open>layoutFocusedContent\<close> passes at least \<open>80\<close> by \<open>64\<close> and
  \<open>layoutChildContent\<close> at least \<open>60\<close> by \<open>50\<close>. So every shape the two layouts synthesize is
  contained, in the child profile with the ring clamp and in the focused profile, for every
  value the seeded generator can return. \<open>layoutChildContent\<close> runs with the child flag set
  (\<open>setChildOfFocused\<close>, \<open>forceFocusLayout\<close>, \<open>updateNode\<close>); \<open>computeRequiredSizeNow("child")\<close>
  does not test the flag, and there the content, which always holds the 16 by 16 checkbox, is
  wide enough for the focused profile too.
\<close>

theorem computeMorphPuffs_containment:
  "coverageR (computeMorphPuffs requiredW requiredH c) = max (requiredW / 2) (requiredH / 2) + 25 \<and>
   coverageR (computeMorphPuffs requiredW requiredH c) \<ge> max requiredW requiredH / 2 \<and>
   ((if isChildOfFocusedNode c then 15 \<le> max requiredW requiredH else 67 \<le> max requiredW requiredH) \<longrightarrow>
    (\<forall>p\<in>set (targetPuffs (computeMorphPuffs requiredW requiredH c)).
       puffOuterEdge p \<le> coverageR (computeMorphPuffs requiredW requiredH c))) \<and>
   (0 \<le> bw \<and> 0 \<le> bh \<longrightarrow>
      coverageR (layoutFocusedContent bw bh c) = max ((bw + 80) / 2) ((bh + 64) / 2) + 25 \<and>
      (\<forall>p\<in>set (targetPuffs (layoutFocusedContent bw bh c)).
         puffOuterEdge p \<le> coverageR (layoutFocusedContent bw bh c))) \<and>
   (0 \<le> bw \<and> 0 \<le> bh \<and> (isChildOfFocusedNode c \<or> 16 \<le> bw) \<longrightarrow>
      coverageR (layoutChildContent bw bh c) = max ((bw + 60) / 2) ((bh + 50) / 2) + 25 \<and>
      (\<forall>p\<in>set (targetPuffs (layoutChildContent bw bh c)).
         puffOuterEdge p \<le> coverageR (layoutChildContent bw bh c)))"
proof (intro conjI impI ballI)
  show "coverageR (computeMorphPuffs requiredW requiredH c) = max (requiredW / 2) (requiredH / 2) + 25"
    by (rule computeMorphPuffs_coverage)
  show "max requiredW requiredH / 2 \<le> coverageR (computeMorphPuffs requiredW requiredH c)"
    unfolding computeMorphPuffs_coverage by linarith
next
  fix p
  assume "if isChildOfFocusedNode c then 15 \<le> max requiredW requiredH else 67 \<le> max requiredW requiredH"
    and "p \<in> set (targetPuffs (computeMorphPuffs requiredW requiredH c))"
  then show "puffOuterEdge p \<le> coverageR (computeMorphPuffs requiredW requiredH c)"
    by (rule computeMorphPuffs_inside)
next
  assume "0 \<le> bw \<and> 0 \<le> bh"
  show "coverageR (layoutFocusedContent bw bh c) = max ((bw + 80) / 2) ((bh + 64) / 2) + 25"
    unfolding layoutFocusedContent_call by (rule computeMorphPuffs_coverage)
next
  fix p
  assume b: "0 \<le> bw \<and> 0 \<le> bh" and p: "p \<in> set (targetPuffs (layoutFocusedContent bw bh c))"
  have "67 \<le> max (bw + 80) (bh + 64)" "15 \<le> max (bw + 80) (bh + 64)"
    using b by linarith+
  then show "puffOuterEdge p \<le> coverageR (layoutFocusedContent bw bh c)"
    using p unfolding layoutFocusedContent_call by (intro computeMorphPuffs_inside) simp_all
next
  assume "0 \<le> bw \<and> 0 \<le> bh \<and> (isChildOfFocusedNode c \<or> 16 \<le> bw)"
  show "coverageR (layoutChildContent bw bh c) = max ((bw + 60) / 2) ((bh + 50) / 2) + 25"
    unfolding layoutChildContent_call by (rule computeMorphPuffs_coverage)
next
  fix p
  assume b: "0 \<le> bw \<and> 0 \<le> bh \<and> (isChildOfFocusedNode c \<or> 16 \<le> bw)"
    and p: "p \<in> set (targetPuffs (layoutChildContent bw bh c))"
  have "15 \<le> max (bw + 60) (bh + 50)" "\<not> isChildOfFocusedNode c \<Longrightarrow> 67 \<le> max (bw + 60) (bh + 50)"
    using b by linarith+
  then show "puffOuterEdge p \<le> coverageR (layoutChildContent bw bh c)"
    using p unfolding layoutChildContent_call by (intro computeMorphPuffs_inside) simp_all
qed

text \<open>
  The witness: a child cloud whose content measures 40 by 10 and a focused cloud whose content
  measures 120 by 40.
\<close>

theorem computeMorphPuffs_containment_witness:
  "coverageR (computeMorphPuffs 100 60 exChildCloud) = 75 \<and>
   coverageR (layoutChildContent 40 10 exChildCloud) = 75 \<and>
   puffOuterEdge (hd (targetPuffs (layoutChildContent 40 10 exChildCloud))) \<le> 75 \<and>
   puffOuterEdge (last (targetPuffs (layoutChildContent 40 10 exChildCloud))) \<le> 75 \<and>
   coverageR (layoutFocusedContent 120 40 exFocusedCloud) = 125 \<and>
   puffOuterEdge (hd (targetPuffs (layoutFocusedContent 120 40 exFocusedCloud))) \<le> 125"
proof -
  have ch: "isChildOfFocusedNode exChildCloud" by (simp add: exChildCloud_def)
  have ch': "isChildOfFocusedNode (exChildCloud\<lparr>requiredCoverageR := r\<rparr>)" for r by (simp add: exChildCloud_def)
  have fo: "\<not> isChildOfFocusedNode (exFocusedCloud\<lparr>requiredCoverageR := r\<rparr>)" for r
    by (simp add: exFocusedCloud_def newCloud_def Let_def split: prod.splits)
  have ne: "targetPuffs (layoutChildContent 40 10 exChildCloud) \<noteq> []"
    unfolding layoutChildContent_call computeMorphPuffs_child [OF ch'] Let_def by simp
  have nf: "targetPuffs (layoutFocusedContent 120 40 exFocusedCloud) \<noteq> []"
    unfolding layoutFocusedContent_call computeMorphPuffs_focused [OF fo] Let_def by simp
  have "hd (targetPuffs (layoutChildContent 40 10 exChildCloud)) \<in> set (targetPuffs (layoutChildContent 40 10 exChildCloud))"
       "last (targetPuffs (layoutChildContent 40 10 exChildCloud)) \<in> set (targetPuffs (layoutChildContent 40 10 exChildCloud))"
       "hd (targetPuffs (layoutFocusedContent 120 40 exFocusedCloud)) \<in> set (targetPuffs (layoutFocusedContent 120 40 exFocusedCloud))"
    using ne nf by simp_all
  then show ?thesis
    using computeMorphPuffs_containment [of 100 60 exChildCloud 40 10]
          computeMorphPuffs_containment [of 100 60 exFocusedCloud 120 40] ch by auto
qed

lemma childRingPuff_small:
  assumes "0 \<le> u1" "u1 < 1" and "0 \<le> u2" "u2 < 1"
  shows "puffOuterEdge (childRingPuff (childProfile b 25) 25 n i u1 u2) > 27"
proof -
  define dst where "dst = 25 * (50 / 100 + (u1 - 1 / 2) * (15 / 1000))"
  define pr where "pr = max 8 (min 16 (18 * (12 / 10) * (70 / 100 + u2 * (60 / 100))))"
  define r where "r = max 8 (min pr (25 - dst + pr * (1 / 2)))"
  have edge: "puffOuterEdge (childRingPuff (childProfile b 25) 25 n i u1 u2) = \<bar>dst\<bar> + r"
    unfolding childRingPuff_def Let_def puffOuterEdge_polar
    by (simp add: childProfile_def dst_def r_def pr_def)
  have d: "dst = 25 / 2 + (25 * u1 - 25 / 2) * (15 / 1000)"
    unfolding dst_def by argo
  have p: "1512 / 100 \<le> pr" "pr \<le> 16"
    using assms(3,4) unfolding pr_def by (simp_all add: algebra_simps)
  have "1512 / 100 \<le> r"
    unfolding r_def using p d assms(1,2) by argo
  then show ?thesis
    unfolding edge using d assms(1,2) by argo
qed

text \<open>
  The size condition of the general bound is needed: called directly with
  \<open>requiredW = requiredH = 0\<close> in the child profile, the method would give the coverage radius
  25 and a first ring puff (index 1 of the target list) with its outer edge beyond 27,
  whatever the generator returns, because the minimum puff radii are fixed while the boundary
  shrinks. No call site passes such sizes.
\<close>

lemma computeMorphPuffs_unpadded_size:
  "coverageR (computeMorphPuffs 0 0 exChildCloud) = 25 \<and>
   puffOuterEdge (targetPuffs (computeMorphPuffs 0 0 exChildCloud) ! 1) > 27"
proof -
  have ch: "isChildOfFocusedNode exChildCloud" by (simp add: exChildCloud_def)
  have len: "length (basePuffs exChildCloud) = 6"
    using cloudInv_newCloud [of exNodeC]
    by (simp add: exChildCloud_def cloudInv_def newCloud_def exNodeC_def bumpCountOf_def Let_def
          split: prod.splits)
  define pf where "pf = childProfile 6 25"
  define seed where "seed = createMorphSeed (node_id (cloud_node exChildCloud)) ''child'' 0 0"
  have cnt: "totalPuffCount pf - nat \<lfloor>real (totalPuffCount pf) * interiorRatio pf\<rfloor> = 5"
    by (simp add: pf_def childProfile_def)
  have tp: "targetPuffs (computeMorphPuffs 0 0 exChildCloud) =
      \<lparr>puff_x = 0, puff_y = 0, puff_r = max (puffRadiusMax pf * (12 / 10)) (25 * (50 / 100))\<rparr> #
      fst (childRingLoop pf 25 4 0 seed) @
      fst (interiorLoop pf 25 (50 / 100) (totalPuffCount pf - 4 - 1) 0 (snd (childRingLoop pf 25 4 0 seed)))"
    unfolding computeMorphPuffs_child [OF ch] Let_def len
    by (simp add: pf_def [symmetric] seed_def [symmetric] cnt)
  have "targetPuffs (computeMorphPuffs 0 0 exChildCloud) ! 1 =
          childRingPuff pf 25 4 0 (fst (rng_next seed)) (fst (rng_next (snd (rng_next seed))))"
    unfolding tp by (simp add: childRingLoop_unfold)
  then have "puffOuterEdge (targetPuffs (computeMorphPuffs 0 0 exChildCloud) ! 1) > 27"
    using childRingPuff_small [of "fst (rng_next seed)" "fst (rng_next (snd (rng_next seed)))" 6 4 0]
      rng_next_range unfolding pf_def by simp
  moreover have "coverageR (computeMorphPuffs 0 0 exChildCloud) = 25"
    using computeMorphPuffs_frame [of 0 0 exChildCloud] by simp
  ultimately show ?thesis by simp
qed

text \<open>
  Claim C2 (determinism of the shape synthesis). The target puffs and the coverage radius
  computed by \<open>computeMorphPuffs\<close> are a function of the node id, the mode and the required
  width and height: any two clouds of the same node (same id, same kind, as made by the
  constructor) in the same mode get the same list, of the same length and with the same
  \<open>(x, y, r)\<close> at every index, whatever else differs between them: position, radius and
  velocity of the node, current puffs, earlier targets, morph flags. The only random source
  read is the seeded generator, whose seed is derived from the node id, the mode and the sizes,
  so neither the clock nor \<open>Math.random\<close> enters.
\<close>

theorem computeMorphPuffs_deterministic:
  assumes "cloudInv c1" and "cloudInv c2"
    and "node_id (cloud_node c1) = node_id (cloud_node c2)"
    and "node_type (cloud_node c1) = node_type (cloud_node c2)"
    and "isChildOfFocusedNode c1 = isChildOfFocusedNode c2"
  shows "targetPuffs (computeMorphPuffs requiredW requiredH c1) =
           targetPuffs (computeMorphPuffs requiredW requiredH c2) \<and>
         length (targetPuffs (computeMorphPuffs requiredW requiredH c1)) =
           length (targetPuffs (computeMorphPuffs requiredW requiredH c2)) \<and>
         coverageR (computeMorphPuffs requiredW requiredH c1) =
           coverageR (computeMorphPuffs requiredW requiredH c2)"
proof -
  have "length (basePuffs c1) = length (basePuffs c2)"
    using assms(1,2,4) by (simp add: cloudInv_def)
  then have "targetPuffs (computeMorphPuffs requiredW requiredH c1) =
             targetPuffs (computeMorphPuffs requiredW requiredH c2)"
    using assms(3,5) by (intro computeMorphPuffs_inputs)
  moreover have "coverageR (computeMorphPuffs requiredW requiredH c1) =
                 coverageR (computeMorphPuffs requiredW requiredH c2)"
    using computeMorphPuffs_frame [of requiredW requiredH c1] computeMorphPuffs_frame [of requiredW requiredH c2]
    by simp
  ultimately show ?thesis by simp
qed

theorem computeMorphPuffs_deterministic_witness:
  "targetPuffs (computeMorphPuffs 100 60 exChildCloud) =
   targetPuffs (computeMorphPuffs 100 60
      ((newCloud (exNodeC\<lparr>node_x := 500, node_y := 70, node_radius := 35\<rparr>))
         \<lparr>isChildOfFocusedNode := True, currentPuffs := [], coverageR := 9\<rparr>))"
proof -
  have 1: "cloudInv exChildCloud"
    using cloudInv_newCloud [of exNodeC] by (simp add: cloudInv_def exChildCloud_def newCloud_def Let_def split: prod.splits)
  have 2: "cloudInv ((newCloud (exNodeC\<lparr>node_x := 500, node_y := 70, node_radius := 35\<rparr>))
         \<lparr>isChildOfFocusedNode := True, currentPuffs := [], coverageR := 9\<rparr>)"
    using cloudInv_newCloud [of "exNodeC\<lparr>node_x := 500, node_y := 70, node_radius := 35\<rparr>"]
    by (simp add: cloudInv_def newCloud_def Let_def split: prod.splits)
  show ?thesis
    using computeMorphPuffs_deterministic [OF 1 2, of 100 60]
    by (simp add: exChildCloud_def newCloud_def Let_def split: prod.splits)
qed

declare growPuffs.simps [simp del]

declare shrinkPuffs.simps [simp del]

declare interpLoop.simps [simp del]

lemma growPuffs_eq:
  "growPuffs n cur s = (cur @ replicate (n - length cur) zeroPuff, s \<and> n \<le> length cur)"
proof (induction "n - length cur" arbitrary: cur s)
  case 0
  then show ?case by (subst growPuffs.simps) simp
next
  case (Suc k)
  then have lt: "length cur < n" by simp
  have "growPuffs n (cur @ [zeroPuff]) False =
          ((cur @ [zeroPuff]) @ replicate (n - length (cur @ [zeroPuff])) zeroPuff, False)"
    using Suc.hyps(1) [of "cur @ [zeroPuff]" False] Suc.hyps(2) by simp
  moreover have "(cur @ [zeroPuff]) @ replicate (n - length (cur @ [zeroPuff])) zeroPuff =
                 cur @ replicate (n - length cur) zeroPuff"
    using lt by (simp add: replicate_Suc [symmetric] Suc_diff_Suc del: replicate_Suc)
  ultimately show ?case
    using lt by (subst growPuffs.simps) (simp add: zeroPuff_def)
qed

lemma shrinkPuffs_eq: "shrinkPuffs n cur = take n cur"
proof (induction "length cur - n" arbitrary: cur)
  case 0
  then show ?case by (subst shrinkPuffs.simps) simp
next
  case (Suc k)
  then have gt: "n < length cur" by simp
  have "shrinkPuffs n (butlast cur) = take n (butlast cur)"
    using Suc.hyps(1) [of "butlast cur"] Suc.hyps(2) by simp
  moreover have "take n (butlast cur) = take n cur"
    using gt by (simp add: butlast_conv_take)
  ultimately show ?case
    using gt by (subst shrinkPuffs.simps) simp
qed

lemma alignPuffs_length [simp]: "length (alignPuffs n cur) = n"
  by (simp add: alignPuffs_def)

lemma alignPuffs_same: "length cur = n \<Longrightarrow> alignPuffs n cur = cur"
  by (simp add: alignPuffs_def)

lemma interpLoop_nth:
  assumes "length cur = length targets"
  shows "length (fst (interpLoop dt targets base i cur s)) = length cur \<and>
         (\<forall>j<length cur. fst (interpLoop dt targets base i cur s) ! j =
             (if i \<le> j then stepPuff dt (cur ! j) (targets ! j) else cur ! j)) \<and>
         snd (interpLoop dt targets base i cur s) =
             (s \<and> (\<forall>j<length cur. i \<le> j \<longrightarrow> \<not> puffFar (cur ! j) (targets ! j)))"
  using assms
proof (induction "length cur - i" arbitrary: i cur s)
  case 0
  then have "\<not> i < length cur" by simp
  then show ?case by (subst (1 2 3) interpLoop.simps) auto
next
  case (Suc k)
  then have lt: "i < length cur" by simp
  then have lt': "i < length targets" using Suc.prems by simp
  show ?case
  proof (cases "puffFar (cur ! i) (targets ! i)")
    case True
    let ?cur' = "cur[i := movePuff dt (cur ! i) (targets ! i)]"
    have unf: "interpLoop dt targets base i cur s = interpLoop dt targets base (i + 1) ?cur' False"
      using lt lt' True by (subst interpLoop.simps) (simp add: Let_def)
    have ih: "length (fst (interpLoop dt targets base (i + 1) ?cur' False)) = length ?cur' \<and>
         (\<forall>j<length ?cur'. fst (interpLoop dt targets base (i + 1) ?cur' False) ! j =
             (if i + 1 \<le> j then stepPuff dt (?cur' ! j) (targets ! j) else ?cur' ! j)) \<and>
         snd (interpLoop dt targets base (i + 1) ?cur' False) =
             (False \<and> (\<forall>j<length ?cur'. i + 1 \<le> j \<longrightarrow> \<not> puffFar (?cur' ! j) (targets ! j)))"
      using Suc.hyps(1) [of ?cur' "i + 1" False] Suc.hyps(2) Suc.prems by simp
    show ?thesis
      unfolding unf
    proof (intro conjI allI impI)
      show "length (fst (interpLoop dt targets base (i + 1) ?cur' False)) = length cur"
        using ih by simp
    next
      fix j assume j: "j < length cur"
      show "fst (interpLoop dt targets base (i + 1) ?cur' False) ! j =
                 (if i \<le> j then stepPuff dt (cur ! j) (targets ! j) else cur ! j)"
      proof (cases "j = i")
        case True
        then show ?thesis using ih lt \<open>puffFar (cur ! i) (targets ! i)\<close> by (simp add: stepPuff_def)
      next
        case False
        then have "?cur' ! j = cur ! j" by simp
        moreover have "(i + 1 \<le> j) = (i \<le> j)" using False by auto
        ultimately show ?thesis using ih j by simp
      qed
    next
      show "snd (interpLoop dt targets base (i + 1) ?cur' False) =
            (s \<and> (\<forall>j<length cur. i \<le> j \<longrightarrow> \<not> puffFar (cur ! j) (targets ! j)))"
        using ih lt True by auto
    qed
  next
    case False
    have unf: "interpLoop dt targets base i cur s = interpLoop dt targets base (i + 1) cur s"
      using lt lt' False by (subst interpLoop.simps) (simp add: Let_def)
    have ih: "length (fst (interpLoop dt targets base (i + 1) cur s)) = length cur \<and>
         (\<forall>j<length cur. fst (interpLoop dt targets base (i + 1) cur s) ! j =
             (if i + 1 \<le> j then stepPuff dt (cur ! j) (targets ! j) else cur ! j)) \<and>
         snd (interpLoop dt targets base (i + 1) cur s) =
             (s \<and> (\<forall>j<length cur. i + 1 \<le> j \<longrightarrow> \<not> puffFar (cur ! j) (targets ! j)))"
      using Suc.hyps(1) [of cur "i + 1" s] Suc.hyps(2) Suc.prems by simp
    have step: "stepPuff dt (cur ! i) (targets ! i) = cur ! i"
      using False by (simp add: stepPuff_def)
    show ?thesis
      unfolding unf
    proof (intro conjI allI impI)
      show "length (fst (interpLoop dt targets base (i + 1) cur s)) = length cur"
        using ih by simp
    next
      fix j assume "j < length cur"
      then show "fst (interpLoop dt targets base (i + 1) cur s) ! j =
                 (if i \<le> j then stepPuff dt (cur ! j) (targets ! j) else cur ! j)"
        using ih step by (cases "j = i") auto
    next
      show "snd (interpLoop dt targets base (i + 1) cur s) =
            (s \<and> (\<forall>j<length cur. i \<le> j \<longrightarrow> \<not> puffFar (cur ! j) (targets ! j)))"
      proof -
        have "(\<forall>j<length cur. i \<le> j \<longrightarrow> \<not> puffFar (cur ! j) (targets ! j)) =
              (\<forall>j<length cur. i + 1 \<le> j \<longrightarrow> \<not> puffFar (cur ! j) (targets ! j))"
        proof
          assume a: "\<forall>j<length cur. i \<le> j \<longrightarrow> \<not> puffFar (cur ! j) (targets ! j)"
          show "\<forall>j<length cur. i + 1 \<le> j \<longrightarrow> \<not> puffFar (cur ! j) (targets ! j)"
            using a by auto
        next
          assume a: "\<forall>j<length cur. i + 1 \<le> j \<longrightarrow> \<not> puffFar (cur ! j) (targets ! j)"
          show "\<forall>j<length cur. i \<le> j \<longrightarrow> \<not> puffFar (cur ! j) (targets ! j)"
          proof (intro allI impI)
            fix j assume "j < length cur" "i \<le> j"
            then show "\<not> puffFar (cur ! j) (targets ! j)"
              using a False by (cases "j = i") auto
          qed
        qed
        then show ?thesis using ih by simp
      qed
    qed
  qed
qed

lemma updateMorph_complete: "morphComplete c \<Longrightarrow> updateMorph dt c = c"
  by (simp add: updateMorph_def)

lemma updateMorph_step:
  assumes "\<not> morphComplete c"
  shows "targetPuffs (updateMorph dt c) = targetPuffs c \<and>
         length (currentPuffs (updateMorph dt c)) = length (targetPuffs c) \<and>
         (\<forall>j<length (targetPuffs c). currentPuffs (updateMorph dt c) ! j =
            stepPuff dt (alignPuffs (length (targetPuffs c)) (currentPuffs c) ! j) (targetPuffs c ! j)) \<and>
         morphComplete (updateMorph dt c) =
            (length (targetPuffs c) \<le> length (currentPuffs c) \<and>
             (\<forall>j<length (targetPuffs c).
                \<not> puffFar (alignPuffs (length (targetPuffs c)) (currentPuffs c) ! j) (targetPuffs c ! j)))"
proof -
  define n where "n = length (targetPuffs c)"
  define a where "a = alignPuffs n (currentPuffs c)"
  define s1 where "s1 = (n \<le> length (currentPuffs c))"
  have la: "length a = length (targetPuffs c)" by (simp add: a_def n_def)
  have upd: "updateMorph dt c =
      c\<lparr>currentPuffs := fst (interpLoop dt (targetPuffs c) (basePuffs c) 0 a s1),
        morphComplete := snd (interpLoop dt (targetPuffs c) (basePuffs c) 0 a s1)\<rparr>"
    using assms
    by (simp add: updateMorph_def growPuffs_eq shrinkPuffs_eq a_def alignPuffs_def n_def s1_def
          split: prod.splits)
  have il: "length (fst (interpLoop dt (targetPuffs c) (basePuffs c) 0 a s1)) = length a"
           "\<forall>j<length a. fst (interpLoop dt (targetPuffs c) (basePuffs c) 0 a s1) ! j =
                 stepPuff dt (a ! j) (targetPuffs c ! j)"
           "snd (interpLoop dt (targetPuffs c) (basePuffs c) 0 a s1) =
                 (s1 \<and> (\<forall>j<length a. \<not> puffFar (a ! j) (targetPuffs c ! j)))"
    using interpLoop_nth [OF la, of dt "basePuffs c" 0 s1] by simp_all
  show ?thesis
    unfolding upd n_def [symmetric] a_def [symmetric]
    using il la by (simp add: n_def s1_def)
qed

lemma notFar_iff: "(\<not> puffFar p t) = (puffDist p t \<le> 3 / 10)"
  unfolding puffFar_def puffDist_def Let_def de_Morgan_disj not_less max.bounded_iff by (rule refl)

lemma puffDist_move:
  "puffDist (movePuff dt p t) t = \<bar>1 - dt / 4\<bar> * puffDist p t"
proof -
  have c: "a + (b - a) * (25 / 100) * dt - b = (1 - dt / 4) * (a - b)" for a b :: real
    by (simp add: field_simps)
  have m: "max (\<bar>q\<bar> * u) (max (\<bar>q\<bar> * v) (\<bar>q\<bar> * w)) = \<bar>q\<bar> * max u (max v w)" for q u v w :: real
    by (simp add: max_mult_distrib_left)
  show ?thesis
    unfolding puffDist_def movePuff_def morphSpeed_def Puff.simps c abs_mult m ..
qed

lemma puffDist_step:
  assumes "0 < dt" "dt < 8"
  shows "puffDist (stepPuff dt p t) t \<le> max (3 / 10) (\<bar>1 - dt / 4\<bar> * puffDist p t)"
proof (cases "puffFar p t")
  case True
  then show ?thesis by (simp add: stepPuff_def puffDist_move)
next
  case False
  then show ?thesis using notFar_iff [of p t] by (simp add: stepPuff_def)
qed

lemma puffDist_nonneg: "0 \<le> puffDist p t"
  by (simp add: puffDist_def)

lemma bernoulli_decay:
  assumes "0 \<le> q" "q \<le> (1 :: real)"
  shows "q ^ n * (1 + real n * (1 - q)) \<le> 1"
proof (induction n)
  case 0
  then show ?case by simp
next
  case (Suc n)
  have p1: "q ^ Suc n \<le> 1" using assms by (rule power_le_one)
  have p0: "0 \<le> q ^ Suc n" using assms by simp
  have "q ^ Suc n * (1 + real (Suc n) * (1 - q)) =
        q * (q ^ n * (1 + real n * (1 - q))) + q ^ Suc n * (1 - q)"
    by (simp add: algebra_simps)
  also have "\<dots> \<le> q * 1 + 1 * (1 - q)"
  proof (rule add_mono)
    show "q * (q ^ n * (1 + real n * (1 - q))) \<le> q * 1"
      using Suc assms(1) by (rule mult_left_mono)
    show "q ^ Suc n * (1 - q) \<le> 1 * (1 - q)"
      using p1 assms(2) by (intro mult_right_mono) simp_all
  qed
  finally show ?case by simp
qed

lemma decay_bound:
  assumes "0 \<le> q" "q \<le> (1 :: real)" and "D \<le> (3 / 10) * (1 + real n * (1 - q))"
  shows "q ^ n * D \<le> 3 / 10"
proof -
  have "q ^ n * D \<le> q ^ n * ((3 / 10) * (1 + real n * (1 - q)))"
    using assms(1,3) by (intro mult_left_mono) simp_all
  also have "\<dots> = (3 / 10) * (q ^ n * (1 + real n * (1 - q)))"
    by simp
  also have "\<dots> \<le> (3 / 10) * 1"
    using bernoulli_decay [OF assms(1,2), of n] by (intro mult_left_mono) simp_all
  finally show ?thesis by simp
qed

lemma settled_withinDist:
  "settled c = withinDist (3 / 10) (currentPuffs c) (targetPuffs c)"
  by (simp add: settled_def withinDist_def notFar_iff)

lemma updateMorph_settled_fix:
  assumes "settled c"
  shows "morphComplete (updateMorph dt c) \<and> settled (updateMorph dt c) \<and>
         targetPuffs (updateMorph dt c) = targetPuffs c"
proof (cases "morphComplete c")
  case True
  then show ?thesis using assms by (simp add: updateMorph_complete)
next
  case False
  have len: "length (currentPuffs c) = length (targetPuffs c)"
    and nf: "\<forall>i<length (targetPuffs c). \<not> puffFar (currentPuffs c ! i) (targetPuffs c ! i)"
    using assms by (simp_all add: settled_def)
  have al: "alignPuffs (length (targetPuffs c)) (currentPuffs c) = currentPuffs c"
    using len by (simp add: alignPuffs_same)
  have st: "targetPuffs (updateMorph dt c) = targetPuffs c"
       "length (currentPuffs (updateMorph dt c)) = length (targetPuffs c)"
       "\<forall>j<length (targetPuffs c). currentPuffs (updateMorph dt c) ! j =
            stepPuff dt (currentPuffs c ! j) (targetPuffs c ! j)"
       "morphComplete (updateMorph dt c) =
            (length (targetPuffs c) \<le> length (currentPuffs c) \<and>
             (\<forall>j<length (targetPuffs c). \<not> puffFar (currentPuffs c ! j) (targetPuffs c ! j)))"
    using updateMorph_step [OF False, of dt] unfolding al by simp_all
  have same: "\<forall>j<length (targetPuffs c). currentPuffs (updateMorph dt c) ! j = currentPuffs c ! j"
    using st(3) nf by (simp add: stepPuff_def)
  show ?thesis
    using st(1,2,4) same nf len by (simp add: settled_def)
qed

lemma updateMorph_inv:
  assumes dt: "0 < dt" "dt < 8"
    and inv: "withinDist E (alignPuffs (length (targetPuffs c)) (currentPuffs c)) (targetPuffs c)"
    and comp: "morphComplete c \<longrightarrow> settled c"
  shows "targetPuffs (updateMorph dt c) = targetPuffs c \<and>
         withinDist (max (3 / 10) (\<bar>1 - dt / 4\<bar> * E)) (currentPuffs (updateMorph dt c)) (targetPuffs c) \<and>
         (morphComplete (updateMorph dt c) \<longrightarrow> settled (updateMorph dt c))"
proof (cases "morphComplete c")
  case True
  then have s: "settled c" using comp by simp
  then have "withinDist (3 / 10) (currentPuffs c) (targetPuffs c)"
    by (simp add: settled_withinDist)
  then have "withinDist (max (3 / 10) (\<bar>1 - dt / 4\<bar> * E)) (currentPuffs c) (targetPuffs c)"
    unfolding withinDist_def by (meson max.coboundedI1 order_trans order_refl)
  then show ?thesis using True s by (simp add: updateMorph_complete)
next
  case False
  let ?a = "alignPuffs (length (targetPuffs c)) (currentPuffs c)"
  have st: "targetPuffs (updateMorph dt c) = targetPuffs c"
       "length (currentPuffs (updateMorph dt c)) = length (targetPuffs c)"
       "\<forall>j<length (targetPuffs c). currentPuffs (updateMorph dt c) ! j = stepPuff dt (?a ! j) (targetPuffs c ! j)"
       "morphComplete (updateMorph dt c) =
            (length (targetPuffs c) \<le> length (currentPuffs c) \<and>
             (\<forall>j<length (targetPuffs c). \<not> puffFar (?a ! j) (targetPuffs c ! j)))"
    using updateMorph_step [OF False, of dt] by simp_all
  have q: "0 \<le> \<bar>1 - dt / 4\<bar>" by simp
  have wd: "withinDist (max (3 / 10) (\<bar>1 - dt / 4\<bar> * E)) (currentPuffs (updateMorph dt c)) (targetPuffs c)"
    unfolding withinDist_def
  proof (intro conjI allI impI)
    show "length (currentPuffs (updateMorph dt c)) = length (targetPuffs c)" by (rule st(2))
  next
    fix i assume i: "i < length (targetPuffs c)"
    have "puffDist (?a ! i) (targetPuffs c ! i) \<le> E"
      using inv i by (simp add: withinDist_def)
    then have "\<bar>1 - dt / 4\<bar> * puffDist (?a ! i) (targetPuffs c ! i) \<le> \<bar>1 - dt / 4\<bar> * E"
      using q by (rule mult_left_mono)
    moreover have "puffDist (stepPuff dt (?a ! i) (targetPuffs c ! i)) (targetPuffs c ! i)
                   \<le> max (3 / 10) (\<bar>1 - dt / 4\<bar> * puffDist (?a ! i) (targetPuffs c ! i))"
      by (rule puffDist_step [OF dt])
    ultimately show "puffDist (currentPuffs (updateMorph dt c) ! i) (targetPuffs c ! i)
                     \<le> max (3 / 10) (\<bar>1 - dt / 4\<bar> * E)"
      using st(3) i by (simp add: max.coboundedI2 le_max_iff_disj) linarith
  qed
  have "settled (updateMorph dt c)" if mc: "morphComplete (updateMorph dt c)"
  proof -
    have nf: "\<forall>j<length (targetPuffs c). \<not> puffFar (?a ! j) (targetPuffs c ! j)"
      using mc st(4) by simp
    then have "\<forall>j<length (targetPuffs c). currentPuffs (updateMorph dt c) ! j = ?a ! j"
      using st(3) by (simp add: stepPuff_def)
    then show ?thesis
      using nf st(1,2) by (simp add: settled_def)
  qed
  then show ?thesis using st(1) wd by simp
qed

lemma withinDist_mono: "withinDist E cur tgt \<Longrightarrow> E \<le> E' \<Longrightarrow> withinDist E' cur tgt"
  unfolding withinDist_def by (meson order_trans)

lemma withinDist_align:
  "withinDist E cur tgt \<Longrightarrow> withinDist E (alignPuffs (length tgt) cur) tgt"
  by (simp add: withinDist_def alignPuffs_same)

lemma updateMorph_iter_inv:
  assumes dt: "0 < dt" "dt < 8"
    and nc: "\<not> morphComplete c"
    and d0: "withinDist D (alignPuffs (length (targetPuffs c)) (currentPuffs c)) (targetPuffs c)"
  shows "targetPuffs ((updateMorph dt ^^ n) c) = targetPuffs c \<and>
         withinDist (max (3 / 10) (\<bar>1 - dt / 4\<bar> ^ n * D))
           (alignPuffs (length (targetPuffs c)) (currentPuffs ((updateMorph dt ^^ n) c))) (targetPuffs c) \<and>
         (morphComplete ((updateMorph dt ^^ n) c) \<longrightarrow> settled ((updateMorph dt ^^ n) c))"
proof (induction n)
  case 0
  show ?case using nc withinDist_mono [OF d0, of "max (3 / 10) D"] by simp
next
  case (Suc n)
  let ?c = "(updateMorph dt ^^ n) c"
  let ?q = "\<bar>1 - dt / 4\<bar>"
  let ?E = "max (3 / 10) (?q ^ n * D)"
  have tp: "targetPuffs ?c = targetPuffs c" using Suc by simp
  have q1: "0 \<le> ?q" "?q \<le> 1" using dt by (simp_all add: abs_le_iff)
  have inv: "withinDist ?E (alignPuffs (length (targetPuffs ?c)) (currentPuffs ?c)) (targetPuffs ?c)"
    using Suc tp by simp
  have comp: "morphComplete ?c \<longrightarrow> settled ?c" using Suc by simp
  have step: "targetPuffs (updateMorph dt ?c) = targetPuffs ?c"
      "withinDist (max (3 / 10) (?q * ?E)) (currentPuffs (updateMorph dt ?c)) (targetPuffs ?c)"
      "morphComplete (updateMorph dt ?c) \<longrightarrow> settled (updateMorph dt ?c)"
    using updateMorph_inv [OF dt inv comp] by simp_all
  have "?q * ?E \<le> max (3 / 10) (?q ^ Suc n * D)"
  proof (cases "3 / 10 \<le> ?q ^ n * D")
    case True
    then have "?E = ?q ^ n * D" by simp
    then show ?thesis by (simp add: mult.assoc)
  next
    case False
    then have "?E = 3 / 10" by simp
    moreover have "?q * (3 / 10) \<le> 1 * (3 / 10)"
      using q1(2) by (intro mult_right_mono) simp_all
    ultimately show ?thesis by (simp add: le_max_iff_disj)
  qed
  then have le: "max (3 / 10) (?q * ?E) \<le> max (3 / 10) (?q ^ Suc n * D)"
    by simp
  have "withinDist (max (3 / 10) (?q ^ Suc n * D)) (currentPuffs (updateMorph dt ?c)) (targetPuffs c)"
    using withinDist_mono [OF step(2) le] tp by simp
  then have "withinDist (max (3 / 10) (?q ^ Suc n * D))
       (alignPuffs (length (targetPuffs c)) (currentPuffs (updateMorph dt ?c))) (targetPuffs c)"
    by (rule withinDist_align)
  then show ?case using step(1,3) tp by simp
qed

lemma updateMorph_iter_settled:
  assumes "settled c"
  shows "morphComplete ((updateMorph dt ^^ Suc k) c) \<and> settled ((updateMorph dt ^^ Suc k) c) \<and>
         targetPuffs ((updateMorph dt ^^ Suc k) c) = targetPuffs c"
proof (induction k)
  case 0
  show ?case using updateMorph_settled_fix [OF assms, of dt] by simp
next
  case (Suc k)
  then have s: "settled ((updateMorph dt ^^ Suc k) c)" by simp
  show ?case
    using updateMorph_settled_fix [OF s, of dt] Suc by simp
qed

subsection \<open>The claim about the morph interpolation\<close>

text \<open>
  Claim C9, as amended. Let the target puff list be fixed, the morph not yet marked complete,
  and \<open>deltaTime\<close> a fixed value with \<open>0 < deltaTime < 8\<close>, so that the factor
  \<open>q = |1 - deltaTime / 4|\<close> is below 1. If every puff of the starting list (brought to the length
  of the target list) is within \<open>D\<close> of its target and \<open>D \<le> 0.3 * (1 + n * (1 - q))\<close>, then after
  \<open>n + 2\<close> calls, and after any larger number of calls, \<open>morphComplete\<close> is set, every puff is
  within \<open>0.3\<close> of its target and the target list is unchanged. The number of calls needed is
  thus at most \<open>D / (0.3 * (1 - q)) + 2\<close>, linear in the starting distance.
\<close>

theorem updateMorph_settles:
  assumes "0 < deltaTime" and "deltaTime < 8" and "\<not> morphComplete c"
    and "withinDist D (alignPuffs (length (targetPuffs c)) (currentPuffs c)) (targetPuffs c)"
    and "D \<le> (3 / 10) * (1 + real n * (1 - \<bar>1 - deltaTime / 4\<bar>))"
  shows "\<forall>m\<ge>n + 2. morphComplete ((updateMorph deltaTime ^^ m) c) \<and>
                    settled ((updateMorph deltaTime ^^ m) c) \<and>
                    targetPuffs ((updateMorph deltaTime ^^ m) c) = targetPuffs c"
proof (intro allI impI)
  fix m assume m: "n + 2 \<le> m"
  let ?q = "\<bar>1 - deltaTime / 4\<bar>"
  let ?c = "(updateMorph deltaTime ^^ n) c"
  have q1: "0 \<le> ?q" "?q \<le> 1" using assms(1,2) by (simp_all add: abs_le_iff)
  have small: "?q ^ n * D \<le> 3 / 10"
    by (rule decay_bound [OF q1 assms(5)])
  have inv: "targetPuffs ?c = targetPuffs c"
      "withinDist (max (3 / 10) (?q ^ n * D)) (alignPuffs (length (targetPuffs c)) (currentPuffs ?c)) (targetPuffs c)"
      "morphComplete ?c \<longrightarrow> settled ?c"
    using updateMorph_iter_inv [OF assms(1,2,3,4), of n] by simp_all
  have w: "withinDist (3 / 10) (alignPuffs (length (targetPuffs ?c)) (currentPuffs ?c)) (targetPuffs ?c)"
    using inv(1,2) small by (simp add: max_absorb1)
  have w1: "withinDist (max (3 / 10) (?q * (3 / 10))) (currentPuffs (updateMorph deltaTime ?c)) (targetPuffs ?c)"
    and t1: "targetPuffs (updateMorph deltaTime ?c) = targetPuffs ?c"
    using updateMorph_inv [OF assms(1,2) w inv(3)] by simp_all
  have "?q * (3 / 10) \<le> 1 * (3 / 10)"
    using q1(2) by (intro mult_right_mono) simp_all
  then have s1: "settled (updateMorph deltaTime ?c)"
    using w1 t1 by (simp add: settled_withinDist max_absorb1)
  obtain k where k: "m = Suc k + Suc n"
    using m by (metis add_2_eq_Suc' le_Suc_ex add.commute add_Suc_right)
  let ?X = "(updateMorph deltaTime ^^ Suc k) (updateMorph deltaTime ?c)"
  have e: "(updateMorph deltaTime ^^ m) c = ?X"
    unfolding k by (simp only: funpow_add o_apply funpow.simps)
  have r: "morphComplete ?X \<and> settled ?X \<and> targetPuffs ?X = targetPuffs (updateMorph deltaTime ?c)"
    by (rule updateMorph_iter_settled [OF s1])
  have "targetPuffs ?X = targetPuffs (updateMorph deltaTime ?c)"
    using r by (rule conjunct2 [THEN conjunct2])
  also have "\<dots> = targetPuffs ?c" by (rule t1)
  also have "\<dots> = targetPuffs c" by (rule inv(1))
  finally have t: "targetPuffs ?X = targetPuffs c" .
  show "morphComplete ((updateMorph deltaTime ^^ m) c) \<and>
        settled ((updateMorph deltaTime ^^ m) c) \<and>
        targetPuffs ((updateMorph deltaTime ^^ m) c) = targetPuffs c"
    unfolding e using r t by blast
qed

theorem updateMorph_settles_witness:
  "morphComplete ((updateMorph 1 ^^ 12) exMorphCloud) \<and> settled ((updateMorph 1 ^^ 12) exMorphCloud) \<and>
   morphComplete ((updateMorph 1 ^^ 13) exMorphCloud) \<and> settled ((updateMorph 1 ^^ 13) exMorphCloud)"
proof -
  have w: "withinDist 1 (alignPuffs (length (targetPuffs exMorphCloud)) (currentPuffs exMorphCloud))
             (targetPuffs exMorphCloud)"
    by (simp add: withinDist_def alignPuffs_def exMorphCloud_def puffDist_def)
  have d: "(1 :: real) \<le> (3 / 10) * (1 + real (10 :: nat) * (1 - \<bar>1 - 1 / 4\<bar>))"
    by simp
  have nc: "\<not> morphComplete exMorphCloud" by (simp add: exMorphCloud_def)
  have "\<forall>m\<ge>10 + 2. morphComplete ((updateMorph 1 ^^ m) exMorphCloud) \<and>
                    settled ((updateMorph 1 ^^ m) exMorphCloud) \<and>
                    targetPuffs ((updateMorph 1 ^^ m) exMorphCloud) = targetPuffs exMorphCloud"
    using updateMorph_settles [of 1 exMorphCloud 1 10, OF _ _ nc w d] by simp
  then have a: "\<And>m. 12 \<le> m \<Longrightarrow> morphComplete ((updateMorph 1 ^^ m) exMorphCloud) \<and>
                    settled ((updateMorph 1 ^^ m) exMorphCloud)"
    by simp
  have "morphComplete ((updateMorph 1 ^^ 12) exMorphCloud) \<and> settled ((updateMorph 1 ^^ 12) exMorphCloud)"
    by (rule a) simp
  moreover have "morphComplete ((updateMorph 1 ^^ 13) exMorphCloud) \<and> settled ((updateMorph 1 ^^ 13) exMorphCloud)"
    by (rule a) simp
  ultimately show ?thesis by blast
qed

lemma updateMorph_overshoot:
  assumes "\<not> morphComplete c" and "0 < length (targetPuffs c)"
    and "puffFar (alignPuffs (length (targetPuffs c)) (currentPuffs c) ! 0) (targetPuffs c ! 0)"
  shows "\<not> morphComplete (updateMorph 8 c) \<and> targetPuffs (updateMorph 8 c) = targetPuffs c \<and>
         puffFar (alignPuffs (length (targetPuffs c)) (currentPuffs (updateMorph 8 c)) ! 0) (targetPuffs c ! 0)"
proof -
  let ?a = "alignPuffs (length (targetPuffs c)) (currentPuffs c)"
  have st: "targetPuffs (updateMorph 8 c) = targetPuffs c"
       "length (currentPuffs (updateMorph 8 c)) = length (targetPuffs c)"
       "\<forall>j<length (targetPuffs c). currentPuffs (updateMorph 8 c) ! j = stepPuff 8 (?a ! j) (targetPuffs c ! j)"
       "morphComplete (updateMorph 8 c) =
            (length (targetPuffs c) \<le> length (currentPuffs c) \<and>
             (\<forall>j<length (targetPuffs c). \<not> puffFar (?a ! j) (targetPuffs c ! j)))"
    using updateMorph_step [OF assms(1), of 8] by simp_all
  have nm: "\<not> morphComplete (updateMorph 8 c)"
    using st(4) assms(2,3) by blast
  have "currentPuffs (updateMorph 8 c) ! 0 = movePuff 8 (?a ! 0) (targetPuffs c ! 0)"
    using st(3) assms(2,3) by (simp add: stepPuff_def)
  then have "puffDist (currentPuffs (updateMorph 8 c) ! 0) (targetPuffs c ! 0) = puffDist (?a ! 0) (targetPuffs c ! 0)"
    by (simp add: puffDist_move)
  then have "puffFar (currentPuffs (updateMorph 8 c) ! 0) (targetPuffs c ! 0)"
    using assms(3) notFar_iff by metis
  then have "puffFar (alignPuffs (length (targetPuffs c)) (currentPuffs (updateMorph 8 c)) ! 0) (targetPuffs c ! 0)"
    using st(2) by (simp add: alignPuffs_same)
  then show ?thesis using nm st(1) by simp
qed

lemma updateMorph_never_settles:
  assumes "\<not> morphComplete c" and "0 < length (targetPuffs c)"
    and "puffFar (alignPuffs (length (targetPuffs c)) (currentPuffs c) ! 0) (targetPuffs c ! 0)"
  shows "\<not> morphComplete ((updateMorph 8 ^^ n) c) \<and> targetPuffs ((updateMorph 8 ^^ n) c) = targetPuffs c \<and>
         puffFar (alignPuffs (length (targetPuffs c)) (currentPuffs ((updateMorph 8 ^^ n) c)) ! 0) (targetPuffs c ! 0)"
proof (induction n)
  case 0
  show ?case using assms by simp
next
  case (Suc n)
  let ?c = "(updateMorph 8 ^^ n) c"
  have a: "\<not> morphComplete ?c" "0 < length (targetPuffs ?c)"
      "puffFar (alignPuffs (length (targetPuffs ?c)) (currentPuffs ?c) ! 0) (targetPuffs ?c ! 0)"
    using Suc assms(2) by simp_all
  show ?case
    using updateMorph_overshoot [OF a] Suc by simp
qed

text \<open>
  Claim C9 as stated fails for \<open>deltaTime = 8\<close>: the step is then a reflection of each far puff
  about its target, so a far puff stays as far as it was. A subtask cloud that has just been
  given its child-mode targets for a \<open>100 \<times> 60\<close> content never reaches \<open>morphComplete\<close>.
\<close>

theorem updateMorph_settles_counterexample:
  "\<not> (\<exists>n. morphComplete ((updateMorph 8 ^^ n) (computeMorphPuffs 100 60 exChildCloud)))"
proof -
  let ?c = "computeMorphPuffs 100 60 exChildCloud"
  have ch: "isChildOfFocusedNode exChildCloud" by (simp add: exChildCloud_def)
  have nc: "\<not> morphComplete ?c" using computeMorphPuffs_frame [of 100 60 exChildCloud] by simp
  obtain rest where tp: "targetPuffs ?c = \<lparr>puff_x = 0, puff_y = 0, puff_r = 75 / 2\<rparr> # rest"
    unfolding computeMorphPuffs_child [OF ch] Let_def by (simp add: childProfile_def)
  obtain crest where cp: "currentPuffs ?c = \<lparr>puff_x = 0, puff_y = 0, puff_r = 13\<rparr> # crest"
    using computeMorphPuffs_frame [of 100 60 exChildCloud]
    by (simp add: exChildCloud_def newCloud_def exNodeC_def Let_def split: prod.splits)
  have len: "0 < length (targetPuffs ?c)" by (simp add: tp)
  have far: "puffFar (alignPuffs (length (targetPuffs ?c)) (currentPuffs ?c) ! 0) (targetPuffs ?c ! 0)"
    unfolding tp cp by (simp add: alignPuffs_def puffFar_def)
  show ?thesis
    using updateMorph_never_settles [OF nc len far] by blast
qed

end
